theory Spec2Isabelle
  imports Main
begin

section \<open>Data model (src/utils/chess-logic.ts)\<close>

datatype PieceType = Pawn | Rook | Knight | Bishop | Queen | King

datatype PieceColor = White | Black

text \<open>
  \<^verbatim>\<open>interface ChessPiece { type; color; position: [number, number]; hasMoved?: boolean; id }\<close>.
  The optional field \<^verbatim>\<open>hasMoved\<close> is \<open>None\<close> when absent. Coordinates are JavaScript
  numbers that the program only ever fills with integers; they are \<open>int\<close> here.
\<close>

record ChessPiece =
  ptype :: PieceType
  color :: PieceColor
  position :: "int \<times> int"
  hasMoved :: "bool option"
  ident :: string

text \<open>
  A cell is a piece or one of the falsy values \<^verbatim>\<open>null\<close> / \<^verbatim>\<open>undefined\<close>. The program
  only tests cells for truthiness, so both falsy values are \<open>None\<close>. A board is the
  array of its rows, \<^verbatim>\<open>board[y][x]\<close>.
\<close>

type_synonym cell = "ChessPiece option"

type_synonym Board = "cell list list"

datatype GameStatus = Playing | Check | Checkmate | Stalemate

record GameState =
  board :: Board
  currentPlayer :: PieceColor
  selectedPiece :: "(int \<times> int) option"
  validMoves :: "(int \<times> int) list"
  gameStatus :: GameStatus
  capturedPieces :: "ChessPiece list"
  moveHistory :: "string list"

section \<open>Outcomes of a call\<close>

text \<open>
  A call either does not return (\<open>None\<close>), throws (\<open>Some (Inl e)\<close>) or returns a value
  (\<open>Some (Inr v)\<close>). \<open>TypeError\<close> is what JavaScript throws when a property of
  \<^verbatim>\<open>undefined\<close> is read or written, that is when \<^verbatim>\<open>board[y]\<close> is not a row.
  Rows are arrays without non-index properties; an assignment \<^verbatim>\<open>row[x] = v\<close> with a
  negative \<open>x\<close> would create such a property, which a list cannot hold, and the model
  stops there with \<open>NonIndexWrite\<close>. No scan of the program produces a negative index.
\<close>

datatype error = TypeError | NonIndexWrite

type_synonym 'a res = "(error + 'a) option"

definition ret :: "'a \<Rightarrow> 'a res" where
  "ret v = Some (Inr v)"

definition throw :: "error \<Rightarrow> 'a res" where
  "throw e = Some (Inl e)"

definition bind_res :: "'a res \<Rightarrow> ('a \<Rightarrow> 'b res) \<Rightarrow> 'b res" where
  "bind_res m f = (case m of None \<Rightarrow> None | Some (Inl e) \<Rightarrow> Some (Inl e) | Some (Inr v) \<Rightarrow> f v)"

subsection \<open>Array reads and writes\<close>

text \<open>
  \<^verbatim>\<open>board[y][x]\<close>: \<^verbatim>\<open>board[y]\<close> is \<^verbatim>\<open>undefined\<close> outside the rows and indexing it throws;
  inside a row an index outside the row reads \<^verbatim>\<open>undefined\<close>.
\<close>

definition row_at :: "cell list \<Rightarrow> int \<Rightarrow> cell" where
  "row_at r x = (if 0 \<le> x \<and> x < int (length r) then r ! nat x else None)"

definition cell_at :: "Board \<Rightarrow> int \<Rightarrow> int \<Rightarrow> cell res" where
  "cell_at b y x =
     (if 0 \<le> y \<and> y < int (length b) then ret (row_at (b ! nat y) x) else throw TypeError)"

text \<open>
  \<^verbatim>\<open>row[x] = v\<close>: inside the row the element is replaced; past the end the array grows,
  the skipped indices reading \<^verbatim>\<open>undefined\<close>.
\<close>

definition row_set :: "cell list \<Rightarrow> int \<Rightarrow> cell \<Rightarrow> cell list res" where
  "row_set r x v =
     (if x < 0 then throw NonIndexWrite
      else if x < int (length r) then ret (r[nat x := v])
      else ret (r @ replicate (nat x - length r) None @ [v]))"

definition cell_set :: "Board \<Rightarrow> int \<Rightarrow> int \<Rightarrow> cell \<Rightarrow> Board res" where
  "cell_set b y x v =
     (if 0 \<le> y \<and> y < int (length b)
      then bind_res (row_set (b ! nat y) x v) (\<lambda>r. ret (b[nat y := r]))
      else throw TypeError)"

section \<open>Move legality (isValidMove, isPathClear)\<close>

text \<open>
  The \<^verbatim>\<open>while (x !== toX || y !== toY)\<close> loop of \<^verbatim>\<open>isPathClear\<close>, with the loop
  variables \<open>x\<close>, \<open>y\<close> as arguments.
\<close>

partial_function (option) isPathClear_loop ::
  "Board \<Rightarrow> int \<Rightarrow> int \<Rightarrow> int \<Rightarrow> int \<Rightarrow> int \<Rightarrow> int \<Rightarrow> (error + bool) option" where
  "isPathClear_loop b dx dy toX toY x y =
     (if x \<noteq> toX \<or> y \<noteq> toY then
        (case cell_at b y x of
           None \<Rightarrow> None
         | Some (Inl e) \<Rightarrow> Some (Inl e)
         | Some (Inr c) \<Rightarrow>
             (if c \<noteq> None then Some (Inr False)
              else isPathClear_loop b dx dy toX toY (x + dx) (y + dy)))
      else Some (Inr True))"

declare isPathClear_loop.simps [code]

definition isPathClear :: "Board \<Rightarrow> int \<times> int \<Rightarrow> int \<times> int \<Rightarrow> bool res" where
  "isPathClear b from to =
     (case (from, to) of ((fromX, fromY), (toX, toY)) \<Rightarrow>
        let dx = sgn (toX - fromX);
            dy = sgn (toY - fromY)
        in isPathClear_loop b dx dy toX toY (fromX + dx) (fromY + dy))"

definition isValidMove :: "Board \<Rightarrow> int \<times> int \<Rightarrow> int \<times> int \<Rightarrow> ChessPiece \<Rightarrow> bool res" where
  "isValidMove b from to piece =
     (case (from, to) of ((fromX, fromY), (toX, toY)) \<Rightarrow>
        let dx = toX - fromX;
            dy = toY - fromY
        in bind_res (cell_at b toY toX) (\<lambda>targetPiece.
             if fromX = toX \<and> fromY = toY then ret False
             else if (case targetPiece of None \<Rightarrow> False | Some t \<Rightarrow> color t = color piece)
               then ret False
             else (case ptype piece of
                 Pawn \<Rightarrow>
                   (let direction = (if color piece = White then - 1 else 1);
                        startRow = (if color piece = White then 6 else 1)
                    in if dx = 0 then
                         (if dy = direction \<and> targetPiece = None then ret True
                          else if fromY = startRow \<and> dy = 2 * direction \<and> targetPiece = None
                            then ret True
                          else ret False)
                       else if \<bar>dx\<bar> = 1 \<and> dy = direction \<and> targetPiece \<noteq> None then ret True
                       else ret False)
               | Rook \<Rightarrow>
                   (if dx = 0 \<or> dy = 0 then isPathClear b from to else ret False)
               | Knight \<Rightarrow>
                   ret ((\<bar>dx\<bar> = 2 \<and> \<bar>dy\<bar> = 1) \<or> (\<bar>dx\<bar> = 1 \<and> \<bar>dy\<bar> = 2))
               | Bishop \<Rightarrow>
                   (if \<bar>dx\<bar> = \<bar>dy\<bar> then isPathClear b from to else ret False)
               | Queen \<Rightarrow>
                   (if dx = 0 \<or> dy = 0 \<or> \<bar>dx\<bar> = \<bar>dy\<bar> then isPathClear b from to
                    else ret False)
               | King \<Rightarrow>
                   ret (\<bar>dx\<bar> \<le> 1 \<and> \<bar>dy\<bar> \<le> 1))))"

text \<open>
  The same loop with a bound on the number of times its body may run: \<open>None\<close> when
  the bound is used up before the loop condition fails.
\<close>

fun isPathClear_steps ::
  "nat \<Rightarrow> Board \<Rightarrow> int \<Rightarrow> int \<Rightarrow> int \<Rightarrow> int \<Rightarrow> int \<Rightarrow> int \<Rightarrow> (error + bool) option" where
  "isPathClear_steps 0 b dx dy toX toY x y =
     (if x \<noteq> toX \<or> y \<noteq> toY then None else Some (Inr True))"
| "isPathClear_steps (Suc n) b dx dy toX toY x y =
     (if x \<noteq> toX \<or> y \<noteq> toY then
        (case cell_at b y x of
           None \<Rightarrow> None
         | Some (Inl e) \<Rightarrow> Some (Inl e)
         | Some (Inr c) \<Rightarrow>
             (if c \<noteq> None then Some (Inr False)
              else isPathClear_steps n b dx dy toX toY (x + dx) (y + dy)))
      else Some (Inr True))"

section \<open>Check detection and legal moves\<close>

text \<open>
  The nested \<^verbatim>\<open>for\<close> loops over the 64 squares are recursions over the list of index
  pairs \<open>(x, y)\<close> in the order the loops visit them: \<^verbatim>\<open>for x { for y { ... } }\<close> in
  \<^verbatim>\<open>getValidMoves\<close>, \<^verbatim>\<open>for y { for x { ... } }\<close> everywhere else.
\<close>

definition scan_x_then_y :: "(int \<times> int) list" where
  "scan_x_then_y = [(x, y). x \<leftarrow> [0..7], y \<leftarrow> [0..7]]"

definition scan_y_then_x :: "(int \<times> int) list" where
  "scan_y_then_x = [(x, y). y \<leftarrow> [0..7], x \<leftarrow> [0..7]]"

fun findKing_loop :: "Board \<Rightarrow> PieceColor \<Rightarrow> (int \<times> int) list \<Rightarrow> (int \<times> int) option res" where
  "findKing_loop b c [] = ret None"
| "findKing_loop b c ((x, y) # sqs) =
     bind_res (cell_at b y x) (\<lambda>piece.
       case piece of
         None \<Rightarrow> findKing_loop b c sqs
       | Some p \<Rightarrow>
           if ptype p = King \<and> color p = c then ret (Some (x, y))
           else findKing_loop b c sqs)"

definition findKing :: "Board \<Rightarrow> PieceColor \<Rightarrow> (int \<times> int) option res" where
  "findKing b c = findKing_loop b c scan_y_then_x"

fun isInCheck_loop :: "Board \<Rightarrow> PieceColor \<Rightarrow> int \<times> int \<Rightarrow> (int \<times> int) list \<Rightarrow> bool res" where
  "isInCheck_loop b opponentColor kingPos [] = ret False"
| "isInCheck_loop b opponentColor kingPos ((x, y) # sqs) =
     bind_res (cell_at b y x) (\<lambda>piece.
       case piece of
         None \<Rightarrow> isInCheck_loop b opponentColor kingPos sqs
       | Some p \<Rightarrow>
           if color p = opponentColor then
             bind_res (isValidMove b (x, y) kingPos p) (\<lambda>v.
               if v then ret True else isInCheck_loop b opponentColor kingPos sqs)
           else isInCheck_loop b opponentColor kingPos sqs)"

definition isInCheck :: "Board \<Rightarrow> PieceColor \<Rightarrow> bool res" where
  "isInCheck b c =
     bind_res (findKing b c) (\<lambda>kingPos.
       case kingPos of
         None \<Rightarrow> ret False
       | Some k \<Rightarrow>
           (let opponentColor = (if c = White then Black else White)
            in isInCheck_loop b opponentColor k scan_y_then_x))"

text \<open>
  \<^verbatim>\<open>board.map((row) => [...row])\<close> copies the rows; as a value the copy is the board.
\<close>

definition wouldBeInCheck :: "Board \<Rightarrow> int \<times> int \<Rightarrow> int \<times> int \<Rightarrow> PieceColor \<Rightarrow> bool res" where
  "wouldBeInCheck b from to c =
     (let newBoard = b
      in bind_res (cell_at newBoard (snd from) (fst from)) (\<lambda>piece.
         bind_res (cell_set newBoard (snd to) (fst to) piece) (\<lambda>newBoard1.
         bind_res (cell_set newBoard1 (snd from) (fst from) None) (\<lambda>newBoard2.
           isInCheck newBoard2 c))))"

fun getValidMoves_loop ::
  "Board \<Rightarrow> int \<times> int \<Rightarrow> ChessPiece \<Rightarrow> (int \<times> int) list \<Rightarrow> (int \<times> int) list
     \<Rightarrow> (int \<times> int) list res" where
  "getValidMoves_loop b pos piece [] moves = ret moves"
| "getValidMoves_loop b pos piece ((x, y) # sqs) moves =
     bind_res (isValidMove b pos (x, y) piece) (\<lambda>v.
       if v then
         bind_res (wouldBeInCheck b pos (x, y) (color piece)) (\<lambda>w.
           if \<not> w then getValidMoves_loop b pos piece sqs (moves @ [(x, y)])
           else getValidMoves_loop b pos piece sqs moves)
       else getValidMoves_loop b pos piece sqs moves)"

definition getValidMoves :: "Board \<Rightarrow> int \<times> int \<Rightarrow> (int \<times> int) list res" where
  "getValidMoves b pos =
     bind_res (cell_at b (snd pos) (fst pos)) (\<lambda>piece.
       case piece of
         None \<Rightarrow> ret []
       | Some p \<Rightarrow> getValidMoves_loop b pos p scan_x_then_y [])"

fun isCheckmate_loop :: "Board \<Rightarrow> PieceColor \<Rightarrow> (int \<times> int) list \<Rightarrow> bool res" where
  "isCheckmate_loop b c [] = ret True"
| "isCheckmate_loop b c ((x, y) # sqs) =
     bind_res (cell_at b y x) (\<lambda>piece.
       case piece of
         None \<Rightarrow> isCheckmate_loop b c sqs
       | Some p \<Rightarrow>
           if color p = c then
             bind_res (getValidMoves b (x, y)) (\<lambda>moves.
               if length moves > 0 then ret False else isCheckmate_loop b c sqs)
           else isCheckmate_loop b c sqs)"

definition isCheckmate :: "Board \<Rightarrow> PieceColor \<Rightarrow> bool res" where
  "isCheckmate b c =
     bind_res (isInCheck b c) (\<lambda>inCheck.
       if \<not> inCheck then ret False else isCheckmate_loop b c scan_y_then_x)"

section \<open>Move notation (formatMove)\<close>

text \<open>
  \<^verbatim>\<open>String(n)\<close> for an integer: decimal digits, with a minus sign below zero.
\<close>

fun digits :: "nat \<Rightarrow> string" where
  "digits n = (if n < 10 then [''0123456789'' ! n] else digits (n div 10) @ [''0123456789'' ! (n mod 10)])"

declare digits.simps [simp del]

definition number_toString :: "int \<Rightarrow> string" where
  "number_toString i = (if i < 0 then CHR ''-'' # digits (nat (- i)) else digits (nat i))"

text \<open>
  \<^verbatim>\<open>`${files[i]}`\<close>: an index outside the array reads \<^verbatim>\<open>undefined\<close>, which the template
  prints as the word.
\<close>

definition files :: "string list" where
  "files = [''a'', ''b'', ''c'', ''d'', ''e'', ''f'', ''g'', ''h'']"

definition files_at :: "int \<Rightarrow> string" where
  "files_at i = (if 0 \<le> i \<and> i < int (length files) then files ! nat i else ''undefined'')"

text \<open>The string values of \<^verbatim>\<open>PieceType\<close>.\<close>

fun type_name :: "PieceType \<Rightarrow> string" where
  "type_name Pawn = ''pawn''"
| "type_name Rook = ''rook''"
| "type_name Knight = ''knight''"
| "type_name Bishop = ''bishop''"
| "type_name Queen = ''queen''"
| "type_name King = ''king''"

definition charAt :: "string \<Rightarrow> nat \<Rightarrow> string" where
  "charAt s i = (if i < length s then [s ! i] else [])"

definition toUpperCase_char :: "char \<Rightarrow> char" where
  "toUpperCase_char c =
     (let n = (of_char c :: nat) in if 97 \<le> n \<and> n \<le> 122 then char_of (n - 32) else c)"

definition toUpperCase :: "string \<Rightarrow> string" where
  "toUpperCase s = map toUpperCase_char s"

definition formatMove :: "int \<times> int \<Rightarrow> int \<times> int \<Rightarrow> ChessPiece \<Rightarrow> ChessPiece option \<Rightarrow> string" where
  "formatMove from to piece captured =
     (let fromSquare = files_at (fst from) @ number_toString (8 - snd from);
          toSquare = files_at (fst to) @ number_toString (8 - snd to);
          pieceSymbol = (if ptype piece = Pawn then [] else toUpperCase (charAt (type_name (ptype piece)) 0));
          captureSymbol = (if captured \<noteq> None then ''x'' else [])
      in pieceSymbol @ captureSymbol @ toSquare)"

section \<open>The game state (ChessGame component)\<close>

definition initialBoard :: Board where
  "initialBoard =
    [[Some \<lparr>ptype = Rook, color = Black, position = (0, 0), hasMoved = None, ident = ''br1''\<rparr>,
      Some \<lparr>ptype = Knight, color = Black, position = (1, 0), hasMoved = None, ident = ''bn1''\<rparr>,
      Some \<lparr>ptype = Bishop, color = Black, position = (2, 0), hasMoved = None, ident = ''bb1''\<rparr>,
      Some \<lparr>ptype = Queen, color = Black, position = (3, 0), hasMoved = None, ident = ''bq''\<rparr>,
      Some \<lparr>ptype = King, color = Black, position = (4, 0), hasMoved = None, ident = ''bk''\<rparr>,
      Some \<lparr>ptype = Bishop, color = Black, position = (5, 0), hasMoved = None, ident = ''bb2''\<rparr>,
      Some \<lparr>ptype = Knight, color = Black, position = (6, 0), hasMoved = None, ident = ''bn2''\<rparr>,
      Some \<lparr>ptype = Rook, color = Black, position = (7, 0), hasMoved = None, ident = ''br2''\<rparr>],
     [Some \<lparr>ptype = Pawn, color = Black, position = (0, 1), hasMoved = None, ident = ''bp1''\<rparr>,
      Some \<lparr>ptype = Pawn, color = Black, position = (1, 1), hasMoved = None, ident = ''bp2''\<rparr>,
      Some \<lparr>ptype = Pawn, color = Black, position = (2, 1), hasMoved = None, ident = ''bp3''\<rparr>,
      Some \<lparr>ptype = Pawn, color = Black, position = (3, 1), hasMoved = None, ident = ''bp4''\<rparr>,
      Some \<lparr>ptype = Pawn, color = Black, position = (4, 1), hasMoved = None, ident = ''bp5''\<rparr>,
      Some \<lparr>ptype = Pawn, color = Black, position = (5, 1), hasMoved = None, ident = ''bp6''\<rparr>,
      Some \<lparr>ptype = Pawn, color = Black, position = (6, 1), hasMoved = None, ident = ''bp7''\<rparr>,
      Some \<lparr>ptype = Pawn, color = Black, position = (7, 1), hasMoved = None, ident = ''bp8''\<rparr>],
     [None, None, None, None, None, None, None, None],
     [None, None, None, None, None, None, None, None],
     [None, None, None, None, None, None, None, None],
     [None, None, None, None, None, None, None, None],
     [Some \<lparr>ptype = Pawn, color = White, position = (0, 6), hasMoved = None, ident = ''wp1''\<rparr>,
      Some \<lparr>ptype = Pawn, color = White, position = (1, 6), hasMoved = None, ident = ''wp2''\<rparr>,
      Some \<lparr>ptype = Pawn, color = White, position = (2, 6), hasMoved = None, ident = ''wp3''\<rparr>,
      Some \<lparr>ptype = Pawn, color = White, position = (3, 6), hasMoved = None, ident = ''wp4''\<rparr>,
      Some \<lparr>ptype = Pawn, color = White, position = (4, 6), hasMoved = None, ident = ''wp5''\<rparr>,
      Some \<lparr>ptype = Pawn, color = White, position = (5, 6), hasMoved = None, ident = ''wp6''\<rparr>,
      Some \<lparr>ptype = Pawn, color = White, position = (6, 6), hasMoved = None, ident = ''wp7''\<rparr>,
      Some \<lparr>ptype = Pawn, color = White, position = (7, 6), hasMoved = None, ident = ''wp8''\<rparr>],
     [Some \<lparr>ptype = Rook, color = White, position = (0, 7), hasMoved = None, ident = ''wr1''\<rparr>,
      Some \<lparr>ptype = Knight, color = White, position = (1, 7), hasMoved = None, ident = ''wn1''\<rparr>,
      Some \<lparr>ptype = Bishop, color = White, position = (2, 7), hasMoved = None, ident = ''wb1''\<rparr>,
      Some \<lparr>ptype = Queen, color = White, position = (3, 7), hasMoved = None, ident = ''wq''\<rparr>,
      Some \<lparr>ptype = King, color = White, position = (4, 7), hasMoved = None, ident = ''wk''\<rparr>,
      Some \<lparr>ptype = Bishop, color = White, position = (5, 7), hasMoved = None, ident = ''wb2''\<rparr>,
      Some \<lparr>ptype = Knight, color = White, position = (6, 7), hasMoved = None, ident = ''wn2''\<rparr>,
      Some \<lparr>ptype = Rook, color = White, position = (7, 7), hasMoved = None, ident = ''wr2''\<rparr>]]"

definition initialState :: GameState where
  "initialState =
     \<lparr>board = initialBoard, currentPlayer = White, selectedPiece = None, validMoves = [],
      gameStatus = Playing, capturedPieces = [], moveHistory = []\<rparr>"

text \<open>
  The \<^verbatim>\<open>useEffect\<close> that recomputes the status from the board and the player to move.
\<close>

definition statusEffect :: "GameState \<Rightarrow> GameState res" where
  "statusEffect gameState =
     bind_res (isInCheck (board gameState) (currentPlayer gameState)) (\<lambda>inCheck.
     bind_res (isCheckmate (board gameState) (currentPlayer gameState)) (\<lambda>inCheckmate.
       let newStatus = (if inCheckmate then Checkmate else if inCheck then Check else Playing)
       in if newStatus \<noteq> gameStatus gameState
          then ret (gameState\<lparr>gameStatus := newStatus\<rparr>)
          else ret gameState))"

text \<open>
  \<^verbatim>\<open>handleSquareClick\<close>. Events are handled one at a time, each on the rendered state,
  so the \<^verbatim>\<open>gameState\<close> the callback closes over and the \<^verbatim>\<open>prevState\<close> its updater
  receives are the same state. The animation bookkeeping (\<^verbatim>\<open>setAnimatingPieces\<close>,
  \<^verbatim>\<open>setTimeout\<close>) does not touch the game state and is left out.
  \<open>handleSquareClick_other\<close> is the tail of the updater, reached when the click is not an
  accepted move: reselect an own piece, else clear the selection.
\<close>

definition handleSquareClick_other :: "GameState \<Rightarrow> int \<Rightarrow> int \<Rightarrow> cell \<Rightarrow> GameState res" where
  "handleSquareClick_other prevState x y piece =
     (if (case piece of None \<Rightarrow> False | Some p \<Rightarrow> color p = currentPlayer prevState) then
        bind_res (getValidMoves (board prevState) (x, y)) (\<lambda>moves.
          ret (prevState\<lparr>selectedPiece := Some (x, y), validMoves := moves\<rparr>))
      else ret (prevState\<lparr>selectedPiece := None, validMoves := []\<rparr>))"

definition handleSquareClick :: "GameState \<Rightarrow> int \<Rightarrow> int \<Rightarrow> GameState res" where
  "handleSquareClick prevState x y =
     (if gameStatus prevState = Checkmate then ret prevState
      else
        bind_res (cell_at (board prevState) y x) (\<lambda>piece.
          case selectedPiece prevState of
            None \<Rightarrow>
              (if (case piece of None \<Rightarrow> False | Some p \<Rightarrow> color p = currentPlayer prevState) then
                 bind_res (getValidMoves (board prevState) (x, y)) (\<lambda>moves.
                   ret (prevState\<lparr>selectedPiece := Some (x, y), validMoves := moves\<rparr>))
               else ret prevState)
          | Some (selX, selY) \<Rightarrow>
              if selX = x \<and> selY = y then
                ret (prevState\<lparr>selectedPiece := None, validMoves := []\<rparr>)
              else
                (let isValid = list_ex (\<lambda>(moveX, moveY). moveX = x \<and> moveY = y) (validMoves prevState)
                 in if isValid then
                      (let newBoard = board prevState
                       in bind_res (cell_at newBoard selY selX) (\<lambda>movingPiece.
                          bind_res (cell_at newBoard y x) (\<lambda>capturedPiece.
                            case movingPiece of
                              None \<Rightarrow> handleSquareClick_other prevState x y piece
                            | Some mp \<Rightarrow>
                                bind_res (cell_set newBoard y x
                                    (Some (mp\<lparr>position := (x, y), hasMoved := Some True\<rparr>))) (\<lambda>newBoard1.
                                bind_res (cell_set newBoard1 selY selX None) (\<lambda>newBoard2.
                                  let moveNotation = formatMove (selX, selY) (x, y) mp capturedPiece;
                                      newMoveHistory = moveHistory prevState @ [moveNotation];
                                      newCapturedPieces =
                                        (case capturedPiece of
                                           Some cp \<Rightarrow> capturedPieces prevState @ [cp]
                                         | None \<Rightarrow> capturedPieces prevState)
                                  in ret (prevState\<lparr>board := newBoard2,
                                        currentPlayer :=
                                          (if currentPlayer prevState = White then Black else White),
                                        selectedPiece := None,
                                        validMoves := [],
                                        capturedPieces := newCapturedPieces,
                                        moveHistory := newMoveHistory\<rparr>))))))
                    else handleSquareClick_other prevState x y piece)))"

definition resetGame :: "GameState \<Rightarrow> GameState" where
  "resetGame gameState = initialState"

text \<open>
  One square activation as the component sees it: the click handler, then, when the
  board or the player to move changed (the dependency array of the effect), the status
  effect. \<open>activateSquares\<close> feeds a sequence of clicks.
\<close>

definition activateSquare :: "GameState \<Rightarrow> int \<Rightarrow> int \<Rightarrow> GameState res" where
  "activateSquare gameState x y =
     bind_res (handleSquareClick gameState x y) (\<lambda>next.
       if board next \<noteq> board gameState \<or> currentPlayer next \<noteq> currentPlayer gameState
       then statusEffect next
       else ret next)"

fun activateSquares :: "GameState \<Rightarrow> (int \<times> int) list \<Rightarrow> GameState res" where
  "activateSquares gameState [] = ret gameState"
| "activateSquares gameState ((x, y) # clicks) =
     bind_res (activateSquare gameState x y) (\<lambda>next. activateSquares next clicks)"

definition aligned :: "int \<times> int \<Rightarrow> int \<times> int \<Rightarrow> bool" where
  "aligned from to =
     (fst to - fst from = 0 \<or> snd to - snd from = 0 \<or> \<bar>fst to - fst from\<bar> = \<bar>snd to - snd from\<bar>)"

definition onBoard :: "int \<times> int \<Rightarrow> bool" where
  "onBoard sq = (0 \<le> fst sq \<and> fst sq \<le> 7 \<and> 0 \<le> snd sq \<and> snd sq \<le> 7)"

definition whiteQueen :: ChessPiece where
  "whiteQueen = \<lparr>ptype = Queen, color = White, position = (2, 2), hasMoved = None, ident = ''wq''\<rparr>"

text \<open>Whether the cell \<^verbatim>\<open>board[y][x]\<close> holds a king of the colour.\<close>

definition kingAt :: "Board \<Rightarrow> PieceColor \<Rightarrow> int \<Rightarrow> int \<Rightarrow> bool" where
  "kingAt b c x y =
     (case cell_at b y x of
        Some (Inr (Some p)) \<Rightarrow> ptype p = King \<and> color p = c
      | _ \<Rightarrow> False)"

text \<open>A board without a white king: black queen d5, white pawn d2, black king e1.\<close>

definition noKingBoard :: Board where
  "noKingBoard =
    [[None, None, None, None, None, None, None, None],
     [None, None, None, None, None, None, None, None],
     [None, None, None, None, None, None, None, None],
     [None, None, None,
      Some \<lparr>ptype = Queen, color = Black, position = (3, 3), hasMoved = None, ident = ''bq''\<rparr>,
      None, None, None, None],
     [None, None, None, None, None, None, None, None],
     [None, None, None, None, None, None, None, None],
     [None, None, None,
      Some \<lparr>ptype = Pawn, color = White, position = (3, 6), hasMoved = None, ident = ''wp4''\<rparr>,
      None, None, None, None],
     [None, None, None, None,
      Some \<lparr>ptype = King, color = Black, position = (4, 7), hasMoved = None, ident = ''bk''\<rparr>,
      None, None, None]]"

text \<open>
  The position \<^verbatim>\<open>wouldBeInCheck\<close> examines, in the words of the specification: the board
  with the moving piece placed on the destination and the origin cleared.
\<close>

definition hypotheticalBoard :: "Board \<Rightarrow> int \<times> int \<Rightarrow> int \<times> int \<Rightarrow> ChessPiece \<Rightarrow> Board res" where
  "hypotheticalBoard b from to piece =
     bind_res (cell_set b (snd to) (fst to) (Some piece)) (\<lambda>b1. cell_set b1 (snd from) (fst from) None)"

text \<open>The test a scanned square passes to be pushed onto \<^verbatim>\<open>validMoves\<close>.\<close>

definition legalTarget :: "Board \<Rightarrow> int \<times> int \<Rightarrow> ChessPiece \<Rightarrow> int \<times> int \<Rightarrow> bool" where
  "legalTarget b pos piece sq =
     (isValidMove b pos sq piece = ret True \<and> wouldBeInCheck b pos sq (color piece) = ret False)"

text \<open>The two orders on squares: file first (\<open>x\<close>, then \<open>y\<close>) and rank first (\<open>y\<close>, then \<open>x\<close>).\<close>

definition file_major :: "int \<times> int \<Rightarrow> int \<times> int \<Rightarrow> bool" where
  "file_major a c = (fst a < fst c \<or> (fst a = fst c \<and> snd a < snd c))"

definition rank_major :: "int \<times> int \<Rightarrow> int \<times> int \<Rightarrow> bool" where
  "rank_major a c = (snd a < snd c \<or> (snd a = snd c \<and> fst a < fst c))"

definition emptyRow :: "cell list" where
  "emptyRow = [None, None, None, None, None, None, None, None]"

definition mk :: "PieceType \<Rightarrow> PieceColor \<Rightarrow> int \<Rightarrow> int \<Rightarrow> ChessPiece" where
  "mk t c x y = \<lparr>ptype = t, color = c, position = (x, y), hasMoved = None, ident = []\<rparr>"

text \<open>Kings on e8 and e1, a white knight on e4.\<close>

definition knightBoard :: Board where
  "knightBoard =
     [emptyRow[4 := Some (mk King Black 4 0)], emptyRow, emptyRow, emptyRow,
      emptyRow[4 := Some (mk Knight White 4 4)], emptyRow, emptyRow,
      emptyRow[4 := Some (mk King White 4 7)]]"

text \<open>
  Black king a8 and rook e8; white knight e2 in front of the white king e1: the knight
  is pinned on the e-file.
\<close>

definition pinBoard :: Board where
  "pinBoard =
     [emptyRow[0 := Some (mk King Black 0 0), 4 := Some (mk Rook Black 4 0)], emptyRow, emptyRow,
      emptyRow, emptyRow, emptyRow,
      emptyRow[4 := Some (mk Knight White 4 6)],
      emptyRow[4 := Some (mk King White 4 7)]]"

text \<open>Black king a8, white queen b6, white king h1: black has no move and is not in check.\<close>

definition staleBoard :: Board where
  "staleBoard =
     [emptyRow[0 := Some (mk King Black 0 0)], emptyRow,
      emptyRow[1 := Some (mk Queen White 1 2)], emptyRow, emptyRow, emptyRow, emptyRow,
      emptyRow[7 := Some (mk King White 7 7)]]"

text \<open>Black king a8, white queen b7 guarded by the white king c6: black is mated.\<close>

definition mateBoard :: Board where
  "mateBoard =
     [emptyRow[0 := Some (mk King Black 0 0)],
      emptyRow[1 := Some (mk Queen White 1 1)],
      emptyRow[2 := Some (mk King White 2 2)], emptyRow, emptyRow, emptyRow, emptyRow, emptyRow]"

text \<open>No piece of the colour on the 64 squares has a legal move.\<close>

definition noLegalMoves :: "Board \<Rightarrow> PieceColor \<Rightarrow> bool" where
  "noLegalMoves b c =
     (\<forall>x\<in>{0..7}. \<forall>y\<in>{0..7}. \<forall>p. cell_at b y x = ret (Some p) \<and> color p = c
        \<longrightarrow> getValidMoves b (x, y) = ret [])"

text \<open>The same, as a test that runs over the scan.\<close>

definition noLegalMoves_scan :: "Board \<Rightarrow> PieceColor \<Rightarrow> bool" where
  "noLegalMoves_scan b c =
     list_all (\<lambda>(x, y).
        case cell_at b y x of
          Some (Inr (Some p)) \<Rightarrow> (if color p = c then getValidMoves b (x, y) = ret [] else True)
        | _ \<Rightarrow> True) scan_y_then_x"

definition staleState :: GameState where
  "staleState =
     \<lparr>board = staleBoard, currentPlayer = Black, selectedPiece = None, validMoves = [],
      gameStatus = Stalemate, capturedPieces = [], moveHistory = []\<rparr>"

definition mateState :: GameState where
  "mateState =
     \<lparr>board = mateBoard, currentPlayer = Black, selectedPiece = None, validMoves = [],
      gameStatus = Playing, capturedPieces = [], moveHistory = []\<rparr>"

text \<open>The initial position with a black knight on e3, in front of the white e-pawn.\<close>

definition blockedBoard :: Board where
  "blockedBoard = initialBoard[5 := (initialBoard ! 5)[4 := Some (mk Knight Black 4 5)]]"

text \<open>A board of seven empty rows: no king on it, and no row \<^verbatim>\<open>board[7]\<close>.\<close>

definition shortBoard :: Board where
  "shortBoard = [emptyRow, emptyRow, emptyRow, emptyRow, emptyRow, emptyRow, emptyRow]"

section \<open>Outcomes and array access: basic facts\<close>

lemma bind_res_ret [simp]: "bind_res (ret v) f = f v"
  by (simp add: bind_res_def ret_def)

lemma bind_res_throw [simp]: "bind_res (throw e) f = throw e"
  by (simp add: bind_res_def throw_def)

lemma bind_res_eq_ret: "bind_res m f = ret r \<longleftrightarrow> (\<exists>v. m = ret v \<and> f v = ret r)"
  by (auto simp: bind_res_def ret_def split: option.splits sum.splits)

lemma ret_inject [simp]: "ret a = ret b \<longleftrightarrow> a = b"
  by (simp add: ret_def)

lemma ret_neq_throw [simp]: "ret a \<noteq> throw e" "throw e \<noteq> ret a" "ret a \<noteq> None" "throw e \<noteq> None"
  by (simp_all add: ret_def throw_def)

lemma cell_at_rows: "0 \<le> y \<Longrightarrow> y < int (length b) \<Longrightarrow> cell_at b y x = ret (row_at (b ! nat y) x)"
  by (simp add: cell_at_def)

lemma cell_at_retD: "cell_at b y x = ret c \<Longrightarrow> 0 \<le> y \<and> y < int (length b) \<and> c = row_at (b ! nat y) x"
  by (simp add: cell_at_def split: if_splits)

lemma cell_at_cases: "cell_at b y x = throw TypeError \<or> (\<exists>c. cell_at b y x = ret c)"
  by (simp add: cell_at_def)

lemma steps_imp_loop:
  "isPathClear_steps n b dx dy toX toY x y = Some r \<Longrightarrow> isPathClear_loop b dx dy toX toY x y = Some r"
proof (induction n arbitrary: x y)
  case 0
  then show ?case by (subst isPathClear_loop.simps) (simp split: if_splits)
next
  case (Suc n)
  show ?case
  proof (cases "x \<noteq> toX \<or> y \<noteq> toY")
    case False
    with Suc.prems show ?thesis by (subst isPathClear_loop.simps) simp
  next
    case True
    show ?thesis
    proof (cases "cell_at b y x")
      case None
      with Suc.prems True show ?thesis by simp
    next
      case (Some a)
      show ?thesis
      proof (cases a)
        case (Inl e)
        with Suc.prems True Some show ?thesis by (subst isPathClear_loop.simps) simp
      next
        case (Inr c)
        show ?thesis
        proof (cases "c = None")
          case True
          with Suc.prems \<open>x \<noteq> toX \<or> y \<noteq> toY\<close> Some Inr
          have "isPathClear_steps n b dx dy toX toY (x + dx) (y + dy) = Some r" by simp
          then have "isPathClear_loop b dx dy toX toY (x + dx) (y + dy) = Some r" by (rule Suc.IH)
          with True \<open>x \<noteq> toX \<or> y \<noteq> toY\<close> Some Inr show ?thesis
            by (subst isPathClear_loop.simps) simp
        next
          case False
          with Suc.prems \<open>x \<noteq> toX \<or> y \<noteq> toY\<close> Some Inr show ?thesis
            by (subst isPathClear_loop.simps) auto
        qed
      qed
    qed
  qed
qed

lemma steps_returns:
  "toX = x + int k * dx \<Longrightarrow> toY = y + int k * dy \<Longrightarrow> k \<le> n
   \<Longrightarrow> \<exists>r. isPathClear_steps n b dx dy toX toY x y = Some r"
proof (induction n arbitrary: k x y)
  case 0
  then show ?case by simp
next
  case (Suc n)
  show ?case
  proof (cases "x \<noteq> toX \<or> y \<noteq> toY")
    case False
    then show ?thesis by simp
  next
    case True
    with Suc.prems obtain k' where k: "k = Suc k'" by (cases k) auto
    have "\<exists>r. isPathClear_steps n b dx dy toX toY (x + dx) (y + dy) = Some r"
      using Suc.prems k by (intro Suc.IH[of _ k']) (simp_all add: algebra_simps)
    with True show ?thesis
      using cell_at_cases[of b y x] by (auto simp: throw_def ret_def)
  qed
qed

lemma steps_ret:
  "toX = x + int k * dx \<Longrightarrow> toY = y + int k * dy \<Longrightarrow> k \<le> n
   \<Longrightarrow> (\<forall>i<k. 0 \<le> y + int i * dy \<and> y + int i * dy < int (length b))
   \<Longrightarrow> \<exists>r. isPathClear_steps n b dx dy toX toY x y = ret r"
proof (induction n arbitrary: k x y)
  case 0
  then show ?case by (auto simp: ret_def)
next
  case (Suc n)
  show ?case
  proof (cases "x \<noteq> toX \<or> y \<noteq> toY")
    case False
    then show ?thesis by (auto simp: ret_def)
  next
    case True
    with Suc.prems obtain k' where k: "k = Suc k'" by (cases k) auto
    have rng: "\<forall>i<k'. 0 \<le> (y + dy) + int i * dy \<and> (y + dy) + int i * dy < int (length b)"
    proof (intro allI impI)
      fix i assume "i < k'"
      then have "Suc i < k" using k by simp
      with Suc.prems(4) have "0 \<le> y + int (Suc i) * dy \<and> y + int (Suc i) * dy < int (length b)"
        by blast
      then show "0 \<le> (y + dy) + int i * dy \<and> (y + dy) + int i * dy < int (length b)"
        by (simp add: algebra_simps)
    qed
    have "\<exists>r. isPathClear_steps n b dx dy toX toY (x + dx) (y + dy) = ret r"
      using Suc.prems k rng by (intro Suc.IH[of _ k']) (simp_all add: algebra_simps)
    moreover have "0 \<le> y \<and> y < int (length b)"
      using Suc.prems(4) k by (auto dest: spec[of _ 0])
    then have "cell_at b y x = ret (row_at (b ! nat y) x)" by (simp add: cell_at_rows)
    ultimately show ?thesis using True
      by (auto simp: ret_def)
  qed
qed

section \<open>The path walk\<close>

lemma aligned_walk:
  assumes "aligned (fx, fy) (tx, ty)"
  shows "tx = fx + int (nat (max \<bar>tx - fx\<bar> \<bar>ty - fy\<bar>)) * sgn (tx - fx)"
    and "ty = fy + int (nat (max \<bar>tx - fx\<bar> \<bar>ty - fy\<bar>)) * sgn (ty - fy)"
  using assms by (auto simp: aligned_def sgn_if max_def abs_if split: if_splits)

lemma loop_True_reaches:
  assumes "isPathClear_loop b dx dy toX toY x y = Some r"
  shows "r = Inr True \<longrightarrow> (\<exists>k::nat. toX = x + int k * dx \<and> toY = y + int k * dy)"
proof -
  let ?P = "\<lambda>(b::Board) dx dy toX toY x y r.
     r = Inr True \<longrightarrow> (\<exists>k::nat. toX = x + int k * dx \<and> toY = y + int k * dy)"
  have step: "?P b dx dy toX toY x y r"
    if IH: "\<And>b dx dy toX toY x y r. f b dx dy toX toY x y = Some r \<Longrightarrow> ?P b dx dy toX toY x y r"
    and body: "(if x \<noteq> toX \<or> y \<noteq> toY
      then case cell_at b y x of None \<Rightarrow> None | Some (Inl e) \<Rightarrow> Some (Inl e)
           | Some (Inr c) \<Rightarrow>
               if c \<noteq> None then Some (Inr False)
               else f b dx dy toX toY (x + dx) (y + dy)
      else Some (Inr True)) = Some r"
    for f b dx dy toX toY x y r
  proof (cases "x \<noteq> toX \<or> y \<noteq> toY")
    case False
    then have "toX = x + int 0 * dx \<and> toY = y + int 0 * dy" by simp
    then show ?thesis by blast
  next
    case True
    show ?thesis
    proof
      assume r: "r = Inr True"
      with True body obtain c where "cell_at b y x = Some (Inr c)" "c = None"
        "f b dx dy toX toY (x + dx) (y + dy) = Some (Inr True)"
        by (auto split: option.splits sum.splits if_splits)
      with IH obtain k :: nat where "toX = (x + dx) + int k * dx \<and> toY = (y + dy) + int k * dy"
        by blast
      then have "toX = x + int (Suc k) * dx \<and> toY = y + int (Suc k) * dy"
        by (simp add: algebra_simps)
      then show "\<exists>k::nat. toX = x + int k * dx \<and> toY = y + int k * dy" by blast
    qed
  qed
  show ?thesis
  proof (rule isPathClear_loop.raw_induct[where P = ?P
        and xa = "((((((b, dx), dy), toX), toY), x), y)" and ya = r, simplified], goal_cases)
    case (1 f b dx dy toX toY x y r)
    have "f b dx dy toX toY x y = Some r \<Longrightarrow> ?P b dx dy toX toY x y r" for b dx dy toX toY x y r
      using 1(1) by blast
    moreover have "(if x \<noteq> toX \<or> y \<noteq> toY
      then case cell_at b y x of None \<Rightarrow> None | Some (Inl e) \<Rightarrow> Some (Inl e)
           | Some (Inr c) \<Rightarrow>
               if c \<noteq> None then Some (Inr False)
               else f b dx dy toX toY (x + dx) (y + dy)
      else Some (Inr True)) = Some r"
      using 1(2) by simp
    ultimately show ?case using step by blast
  next
    case 2
    show ?case using assms by simp
  qed
qed

lemma isPathClear_True_aligned:
  assumes "isPathClear b (fx, fy) (tx, ty) = ret True"
  shows "aligned (fx, fy) (tx, ty)"
proof -
  from assms have "isPathClear_loop b (sgn (tx - fx)) (sgn (ty - fy)) tx ty
      (fx + sgn (tx - fx)) (fy + sgn (ty - fy)) = Some (Inr True)"
    by (simp add: isPathClear_def ret_def Let_def)
  from loop_True_reaches[OF this] obtain k :: nat where
    k: "tx = (fx + sgn (tx - fx)) + int k * sgn (tx - fx)"
       "ty = (fy + sgn (ty - fy)) + int k * sgn (ty - fy)"
    by blast
  show ?thesis
  proof (cases "tx - fx = 0 \<or> ty - fy = 0")
    case True
    then show ?thesis by (auto simp: aligned_def)
  next
    case False
    then have "\<bar>sgn (tx - fx)\<bar> = 1" "\<bar>sgn (ty - fy)\<bar> = 1" by (auto simp: sgn_if)
    moreover from k have "tx - fx = (1 + int k) * sgn (tx - fx)" "ty - fy = (1 + int k) * sgn (ty - fy)"
      by (simp_all add: algebra_simps)
    then have "\<bar>tx - fx\<bar> = (1 + int k) * \<bar>sgn (tx - fx)\<bar>" "\<bar>ty - fy\<bar> = (1 + int k) * \<bar>sgn (ty - fy)\<bar>"
      by (metis abs_mult abs_of_nonneg add_nonneg_nonneg of_nat_0_le_iff zero_le_one)+
    ultimately show ?thesis by (simp add: aligned_def)
  qed
qed

lemma isPathClear_steps_aligned:
  assumes al: "aligned (fx, fy) (tx, ty)"
    and n: "nat (max \<bar>tx - fx\<bar> \<bar>ty - fy\<bar>) \<le> Suc n"
  shows "\<exists>r. isPathClear_steps n b (sgn (tx - fx)) (sgn (ty - fy)) tx ty
            (fx + sgn (tx - fx)) (fy + sgn (ty - fy)) = Some r
         \<and> isPathClear b (fx, fy) (tx, ty) = Some r"
proof -
  let ?m = "nat (max \<bar>tx - fx\<bar> \<bar>ty - fy\<bar>)"
  let ?sx = "sgn (tx - fx)" and ?sy = "sgn (ty - fy)"
  note w = aligned_walk[OF al]
  have "\<exists>k. k \<le> n \<and> tx = (fx + ?sx) + int k * ?sx \<and> ty = (fy + ?sy) + int k * ?sy"
  proof (cases ?m)
    case 0
    then have "tx = fx" "ty = fy" by (auto simp: max_def split: if_splits)
    then show ?thesis by (intro exI[of _ 0]) simp
  next
    case (Suc k)
    with n have "k \<le> n" by simp
    moreover from w Suc have "tx = (fx + ?sx) + int k * ?sx" "ty = (fy + ?sy) + int k * ?sy"
      by (simp_all add: algebra_simps)
    ultimately show ?thesis by blast
  qed
  then obtain k where k: "k \<le> n" "tx = (fx + ?sx) + int k * ?sx" "ty = (fy + ?sy) + int k * ?sy"
    by blast
  from steps_returns[OF k(2) k(3) k(1)] obtain r where
    r: "isPathClear_steps n b ?sx ?sy tx ty (fx + ?sx) (fy + ?sy) = Some r" by blast
  from steps_imp_loop[OF r] have "isPathClear b (fx, fy) (tx, ty) = Some r"
    by (simp add: isPathClear_def Let_def)
  with r show ?thesis by blast
qed

lemma isPathClear_ret_aligned:
  assumes al: "aligned (fx, fy) (tx, ty)"
    and fy: "0 \<le> fy" "fy < int (length b)" and ty: "0 \<le> ty" "ty < int (length b)"
  shows "\<exists>r. isPathClear b (fx, fy) (tx, ty) = ret r"
proof -
  let ?m = "nat (max \<bar>tx - fx\<bar> \<bar>ty - fy\<bar>)"
  let ?sx = "sgn (tx - fx)" and ?sy = "sgn (ty - fy)"
  note w = aligned_walk[OF al]
  have "\<exists>k. tx = (fx + ?sx) + int k * ?sx \<and> ty = (fy + ?sy) + int k * ?sy
     \<and> (\<forall>i<k. 0 \<le> (fy + ?sy) + int i * ?sy \<and> (fy + ?sy) + int i * ?sy < int (length b))"
  proof (cases ?m)
    case 0
    then have "tx = fx" "ty = fy" by (auto simp: max_def split: if_splits)
    then show ?thesis by (intro exI[of _ 0]) simp
  next
    case (Suc k)
    from w Suc have e: "tx = (fx + ?sx) + int k * ?sx" "ty = (fy + ?sy) + int k * ?sy"
      by (simp_all add: algebra_simps)
    have "0 \<le> (fy + ?sy) + int i * ?sy \<and> (fy + ?sy) + int i * ?sy < int (length b)" if "i < k" for i
    proof -
      have "?sy = 0 \<or> ?sy = 1 \<or> ?sy = - 1" by (simp add: sgn_if)
      then consider "?sy = 0" | "?sy = 1" | "?sy = - 1" by blast
      then show ?thesis
      proof cases
        case 1 then show ?thesis using fy by simp
      next
        case 2 then show ?thesis using fy ty e(2) that by simp
      next
        case 3 then show ?thesis using fy ty e(2) that by simp
      qed
    qed
    with e show ?thesis by blast
  qed
  then obtain k where k: "tx = (fx + ?sx) + int k * ?sx" "ty = (fy + ?sy) + int k * ?sy"
    "\<forall>i<k. 0 \<le> (fy + ?sy) + int i * ?sy \<and> (fy + ?sy) + int i * ?sy < int (length b)"
    by blast
  from steps_ret[OF k(1) k(2) order_refl k(3)] obtain r where
    "isPathClear_steps k b ?sx ?sy tx ty (fx + ?sx) (fy + ?sy) = ret r" by blast
  then have "isPathClear_loop b ?sx ?sy tx ty (fx + ?sx) (fy + ?sy) = ret r"
    unfolding ret_def by (rule steps_imp_loop)
  then show ?thesis by (auto simp: isPathClear_def Let_def)
qed

lemma isPathClear_returns:
  "aligned from to \<Longrightarrow> \<exists>r. isPathClear b from to = Some r"
  using isPathClear_steps_aligned[of "fst from" "snd from" "fst to" "snd to"
      "nat (max \<bar>fst to - fst from\<bar> \<bar>snd to - snd from\<bar>)" b]
  by auto

lemma ex_ret: "\<exists>v. ret x = ret v"
  by blast

lemma ex_Some_ret: "\<exists>r. ret x = Some r"
  by (simp add: ret_def)

lemma ex_ret_if:
  "(c \<Longrightarrow> \<exists>v. A = ret v) \<Longrightarrow> (\<not> c \<Longrightarrow> \<exists>v. B = ret v) \<Longrightarrow> \<exists>v. (if c then A else B) = ret v"
  by simp

lemma ex_Some_if:
  "(c \<Longrightarrow> \<exists>v. A = Some v) \<Longrightarrow> (\<not> c \<Longrightarrow> \<exists>v. B = Some v) \<Longrightarrow> \<exists>v. (if c then A else B) = Some v"
  by simp

lemma isValidMove_cell:
  assumes "cell_at b ty tx = ret targetPiece"
  shows "isValidMove b (fx, fy) (tx, ty) piece =
    (if fx = tx \<and> fy = ty then ret False
     else if (case targetPiece of None \<Rightarrow> False | Some t \<Rightarrow> color t = color piece) then ret False
     else (case ptype piece of
         Pawn \<Rightarrow>
           (if tx - fx = 0 then
              (if ty - fy = (if color piece = White then - 1 else 1) \<and> targetPiece = None then ret True
               else if fy = (if color piece = White then 6 else 1)
                     \<and> ty - fy = 2 * (if color piece = White then - 1 else 1) \<and> targetPiece = None
                 then ret True
               else ret False)
            else if \<bar>tx - fx\<bar> = 1 \<and> ty - fy = (if color piece = White then - 1 else 1)
                  \<and> targetPiece \<noteq> None then ret True
            else ret False)
       | Rook \<Rightarrow> (if tx - fx = 0 \<or> ty - fy = 0 then isPathClear b (fx, fy) (tx, ty) else ret False)
       | Knight \<Rightarrow> ret ((\<bar>tx - fx\<bar> = 2 \<and> \<bar>ty - fy\<bar> = 1) \<or> (\<bar>tx - fx\<bar> = 1 \<and> \<bar>ty - fy\<bar> = 2))
       | Bishop \<Rightarrow> (if \<bar>tx - fx\<bar> = \<bar>ty - fy\<bar> then isPathClear b (fx, fy) (tx, ty) else ret False)
       | Queen \<Rightarrow> (if tx - fx = 0 \<or> ty - fy = 0 \<or> \<bar>tx - fx\<bar> = \<bar>ty - fy\<bar>
                   then isPathClear b (fx, fy) (tx, ty) else ret False)
       | King \<Rightarrow> ret (\<bar>tx - fx\<bar> \<le> 1 \<and> \<bar>ty - fy\<bar> \<le> 1)))"
  unfolding isValidMove_def Let_def prod.case assms bind_res_ret ..

lemma isValidMove_returns: "\<exists>r. isValidMove b from to piece = Some r"
proof -
  obtain fx fy tx ty where ft: "from = (fx, fy)" "to = (tx, ty)" by (cases "from"; cases to) auto
  have pc: "aligned (fx, fy) (tx, ty) \<Longrightarrow> \<exists>r. isPathClear b (fx, fy) (tx, ty) = Some r"
    by (rule isPathClear_returns)
  from cell_at_cases[of b ty tx] show ?thesis
  proof
    assume "cell_at b ty tx = throw TypeError"
    then have "isValidMove b from to piece = throw TypeError"
      by (simp add: isValidMove_def ft Let_def)
    then show ?thesis by (simp add: throw_def)
  next
    assume "\<exists>c. cell_at b ty tx = ret c"
    then obtain c where c: "cell_at b ty tx = ret c" by blast
    show ?thesis
      unfolding ft isValidMove_cell[OF c]
      by (cases "ptype piece"; simp only: PieceType.case;
          intro ex_Some_if ex_Some_ret pc; auto simp: aligned_def)
  qed
qed

lemma isValidMove_ret:
  assumes "0 \<le> fy" "fy < int (length b)" "0 \<le> ty" "ty < int (length b)"
  shows "\<exists>v. isValidMove b (fx, fy) (tx, ty) piece = ret v"
proof -
  have pc: "aligned (fx, fy) (tx, ty) \<Longrightarrow> \<exists>r. isPathClear b (fx, fy) (tx, ty) = ret r"
    using isPathClear_ret_aligned[OF _ assms] by blast
  have c: "cell_at b ty tx = ret (row_at (b ! nat ty) tx)"
    using assms by (simp add: cell_at_rows)
  show ?thesis
    unfolding isValidMove_cell[OF c]
    by (cases "ptype piece"; simp only: PieceType.case;
        intro ex_ret_if ex_ret pc; auto simp: aligned_def)
qed

lemma isValidMove_unaligned_eq:
  assumes "\<not> aligned from to" "ptype piece = Rook \<or> ptype piece = Bishop \<or> ptype piece = Queen"
  shows "isValidMove b from to piece = bind_res (cell_at b (snd to) (fst to)) (\<lambda>t. ret False)"
proof -
  obtain fx fy tx ty where ft: "from = (fx, fy)" "to = (tx, ty)" by (cases "from"; cases to) auto
  from cell_at_cases[of b ty tx] show ?thesis
  proof
    assume "cell_at b ty tx = throw TypeError"
    then show ?thesis by (simp add: isValidMove_def ft)
  next
    assume "\<exists>c. cell_at b ty tx = ret c"
    then obtain c where c: "cell_at b ty tx = ret c" by blast
    from assms have "tx - fx \<noteq> 0" "ty - fy \<noteq> 0" "\<bar>tx - fx\<bar> \<noteq> \<bar>ty - fy\<bar>"
      by (simp_all add: aligned_def ft)
    with assms(2) show ?thesis
      unfolding ft isValidMove_cell[OF c] by (auto simp: c)
  qed
qed

lemma isPathClear_initial_diagonal: "isPathClear initialBoard (2, 2) (5, 5) = ret True"
  by code_simp

lemma isValidMove_initial_unaligned: "isValidMove initialBoard (0, 2) (1, 4) whiteQueen = ret False"
  by code_simp

section \<open>C10: the path walk terminates\<close>

text \<open>
  Claim C10. Every call of \<open>isValidMove\<close> returns or throws, whatever the board, the
  squares and the piece, so every walk it starts ends. For a rook, bishop or queen on
  squares that are not aligned the result is decided by the read of the target cell
  alone, without a walk. On aligned squares \<open>isPathClear\<close> ends; when both squares are
  on the 8\<times>8 board, six runs of the loop body are enough, which with the first step
  taken before the loop is a walk of at most seven unit steps. A walk that ends with
  \<open>true\<close> has reached the destination, and that only happens on aligned squares.
\<close>

theorem isPathClear_terminates:
  "(\<exists>r. isValidMove b from to piece = Some r)
   \<and> ((ptype piece = Rook \<or> ptype piece = Bishop \<or> ptype piece = Queen) \<and> \<not> aligned from to
        \<longrightarrow> isValidMove b from to piece = bind_res (cell_at b (snd to) (fst to)) (\<lambda>t. ret False))
   \<and> (aligned from to \<longrightarrow> (\<exists>r. isPathClear b from to = Some r))
   \<and> (aligned from to \<and> onBoard from \<and> onBoard to \<longrightarrow>
        (\<exists>r. isPathClear_steps 6 b (sgn (fst to - fst from)) (sgn (snd to - snd from))
               (fst to) (snd to)
               (fst from + sgn (fst to - fst from)) (snd from + sgn (snd to - snd from)) = Some r
             \<and> isPathClear b from to = Some r))
   \<and> (isPathClear b from to = ret True \<longrightarrow> aligned from to)"
proof (intro conjI impI)
  show "\<exists>r. isValidMove b from to piece = Some r" by (rule isValidMove_returns)
next
  assume "(ptype piece = Rook \<or> ptype piece = Bishop \<or> ptype piece = Queen) \<and> \<not> aligned from to"
  then show "isValidMove b from to piece = bind_res (cell_at b (snd to) (fst to)) (\<lambda>t. ret False)"
    by (simp add: isValidMove_unaligned_eq)
next
  assume "aligned from to"
  then show "\<exists>r. isPathClear b from to = Some r" by (rule isPathClear_returns)
next
  assume a: "aligned from to \<and> onBoard from \<and> onBoard to"
  then have "nat (max \<bar>fst to - fst from\<bar> \<bar>snd to - snd from\<bar>) \<le> Suc 6"
    by (auto simp: onBoard_def)
  with a isPathClear_steps_aligned[of "fst from" "snd from" "fst to" "snd to" 6 b]
  show "\<exists>r. isPathClear_steps 6 b (sgn (fst to - fst from)) (sgn (snd to - snd from))
               (fst to) (snd to)
               (fst from + sgn (fst to - fst from)) (snd from + sgn (snd to - snd from)) = Some r
             \<and> isPathClear b from to = Some r"
    by simp
next
  assume "isPathClear b from to = ret True"
  then show "aligned from to"
    using isPathClear_True_aligned[of b "fst from" "snd from" "fst to" "snd to"] by simp
qed

theorem isPathClear_terminates_witness:
  "aligned (2, 2) (5, 5) \<and> onBoard (2, 2) \<and> onBoard (5, 5)
   \<and> isPathClear initialBoard (2, 2) (5, 5) = ret True
   \<and> isPathClear_steps 6 initialBoard 1 1 5 5 3 3 = ret True
   \<and> isValidMove initialBoard (2, 2) (5, 5) whiteQueen \<noteq> None
   \<and> ptype whiteQueen = Queen \<and> \<not> aligned (0, 2) (1, 4)
   \<and> isValidMove initialBoard (0, 2) (1, 4) whiteQueen = ret False"
  using isPathClear_terminates[of initialBoard "(2, 2)" "(5, 5)" whiteQueen]
    isPathClear_terminates[of initialBoard "(0, 2)" "(1, 4)" whiteQueen]
    isPathClear_initial_diagonal isValidMove_initial_unaligned
  by (auto simp: aligned_def onBoard_def whiteQueen_def ret_def)

lemma ex_bool [simp]: "\<exists>r::bool. r" "\<exists>r::bool. \<not> r" "Ex Not"
  by blast+

lemma set_scan_y_then_x: "set scan_y_then_x = {(x, y). 0 \<le> x \<and> x \<le> 7 \<and> 0 \<le> y \<and> y \<le> 7}"
  by (auto simp: scan_y_then_x_def)

lemma set_scan_x_then_y: "set scan_x_then_y = {(x, y). 0 \<le> x \<and> x \<le> 7 \<and> 0 \<le> y \<and> y \<le> 7}"
  by (auto simp: scan_x_then_y_def)

lemma scan_rows:
  assumes "8 \<le> length b"
  shows "\<forall>(x, y) \<in> set scan_y_then_x. 0 \<le> y \<and> y < int (length b)"
    and "\<forall>(x, y) \<in> set scan_x_then_y. 0 \<le> y \<and> y < int (length b)"
  using assms by (auto simp: set_scan_y_then_x set_scan_x_then_y)

lemma findKing_loop_None:
  assumes "\<forall>(x, y) \<in> set sqs. 0 \<le> y \<and> y < int (length b)"
    and "\<forall>(x, y) \<in> set sqs. \<forall>p. cell_at b y x = ret (Some p) \<longrightarrow> \<not> (ptype p = King \<and> color p = c)"
  shows "findKing_loop b c sqs = ret None"
  using assms
proof (induction sqs)
  case Nil
  then show ?case by simp
next
  case (Cons sq sqs)
  obtain x y where sq: "sq = (x, y)" by (cases sq)
  from Cons.prems(1) sq have "cell_at b y x = ret (row_at (b ! nat y) x)"
    by (simp add: cell_at_rows)
  moreover from Cons.prems(2) sq this
  have "\<forall>p. row_at (b ! nat y) x = Some p \<longrightarrow> \<not> (ptype p = King \<and> color p = c)" by simp
  moreover from Cons have "findKing_loop b c sqs = ret None" by simp
  ultimately show ?case by (auto simp: sq split: option.splits)
qed

lemma findKing_loop_ret:
  assumes "\<forall>(x, y) \<in> set sqs. 0 \<le> y \<and> y < int (length b)"
  shows "\<exists>k. findKing_loop b c sqs = ret k \<and> (\<forall>kx ky. k = Some (kx, ky) \<longrightarrow> (kx, ky) \<in> set sqs)"
  using assms
proof (induction sqs)
  case Nil
  then show ?case by simp
next
  case (Cons sq sqs)
  obtain x y where sq: "sq = (x, y)" by (cases sq)
  from Cons.prems sq have "cell_at b y x = ret (row_at (b ! nat y) x)"
    by (simp add: cell_at_rows)
  moreover from Cons obtain k where "findKing_loop b c sqs = ret k"
    "\<forall>kx ky. k = Some (kx, ky) \<longrightarrow> (kx, ky) \<in> set sqs" by auto
  ultimately show ?case by (auto simp: sq split: option.splits)
qed

lemma isInCheck_loop_ret:
  assumes "\<forall>(x, y) \<in> set sqs. 0 \<le> y \<and> y < int (length b)"
    and "0 \<le> ky" "ky < int (length b)"
  shows "\<exists>r. isInCheck_loop b opp (kx, ky) sqs = ret r"
  using assms(1)
proof (induction sqs)
  case Nil
  then show ?case by simp
next
  case (Cons sq sqs)
  obtain x y where sq: "sq = (x, y)" by (cases sq)
  from Cons.prems sq have y: "0 \<le> y" "y < int (length b)" by auto
  then have c: "cell_at b y x = ret (row_at (b ! nat y) x)"
    by (simp add: cell_at_rows)
  from Cons obtain r where r: "isInCheck_loop b opp (kx, ky) sqs = ret r" by auto
  show ?case
  proof (cases "row_at (b ! nat y) x")
    case None
    then show ?thesis by (simp add: sq c r)
  next
    case (Some p)
    from isValidMove_ret[OF y assms(2,3)] obtain v where
      "isValidMove b (x, y) (kx, ky) p = ret v" by blast
    then show ?thesis by (simp add: sq c r Some)
  qed
qed

lemma isInCheck_ret:
  assumes "8 \<le> length b"
  shows "\<exists>r. isInCheck b c = ret r"
proof -
  from findKing_loop_ret[OF scan_rows(1)[OF assms], of c] obtain k where
    k: "findKing b c = ret k" "\<forall>kx ky. k = Some (kx, ky) \<longrightarrow> (kx, ky) \<in> set scan_y_then_x"
    by (auto simp: findKing_def)
  show ?thesis
  proof (cases k)
    case None
    then show ?thesis by (simp add: isInCheck_def k)
  next
    case (Some kp)
    obtain kx ky where kp: "kp = (kx, ky)" by (cases kp)
    with k Some scan_rows(1)[OF assms] have "0 \<le> ky" "ky < int (length b)" by auto
    from isInCheck_loop_ret[OF scan_rows(1)[OF assms] this]
    show ?thesis by (simp add: isInCheck_def k Some kp Let_def)
  qed
qed

section \<open>C7: no king, no check\<close>

text \<open>
  The claim does not hold for every board. The scan of \<open>findKing\<close> reads the rows 0 to 7
  whatever the board is, so on a board with fewer rows and no king it reaches a row that
  is \<^verbatim>\<open>undefined\<close> and throws before the \<^verbatim>\<open>if (!kingPos) return false\<close> guard: on seven
  empty rows \<open>findKing\<close> and \<open>isInCheck\<close> throw a \<open>TypeError\<close>.
\<close>

theorem isInCheck_short_board_throws:
  "length shortBoard = 7 \<and> concat shortBoard = replicate 56 None
   \<and> findKing shortBoard White = throw TypeError
   \<and> isInCheck shortBoard White = throw TypeError"
  by code_simp

text \<open>
  Claim C7, as the code has it. On a board that has at least eight rows, when none of
  the 64 squares holds a king of the colour, \<open>findKing\<close> returns \<^verbatim>\<open>null\<close> and \<open>isInCheck\<close>
  returns \<^verbatim>\<open>false\<close>; nothing is thrown. The rows may be of any length and the board may
  otherwise be arbitrary.
\<close>

theorem isInCheck_no_king:
  assumes "8 \<le> length b"
    and "\<forall>x\<in>{0..7}. \<forall>y\<in>{0..7}. \<not> kingAt b c x y"
  shows "findKing b c = ret None \<and> isInCheck b c = ret False"
proof -
  have "\<forall>(x, y) \<in> set scan_y_then_x.
          \<forall>p. cell_at b y x = ret (Some p) \<longrightarrow> \<not> (ptype p = King \<and> color p = c)"
  proof (intro ballI allI impI, clarify)
    fix x y p
    assume "(x, y) \<in> set scan_y_then_x" and c: "cell_at b y x = ret (Some p)"
      and k: "ptype p = King" "c = color p"
    then have "x \<in> {0..7}" "y \<in> {0..7}" by (simp_all add: set_scan_y_then_x)
    with assms(2) have "\<not> kingAt b c x y" by blast
    with c k show False by (simp add: kingAt_def ret_def)
  qed
  with scan_rows(1)[OF assms(1)] have "findKing b c = ret None"
    unfolding findKing_def by (rule findKing_loop_None)
  then show ?thesis by (simp add: isInCheck_def)
qed

lemma noKing_len: "8 \<le> length noKingBoard"
  by (simp add: noKingBoard_def)

lemma noKing_list: "list_all (\<lambda>(x, y). \<not> kingAt noKingBoard White x y) scan_y_then_x"
  by code_simp

theorem isInCheck_no_king_witness:
  "8 \<le> length noKingBoard
   \<and> list_all (\<lambda>(x, y). \<not> kingAt noKingBoard White x y) scan_y_then_x
   \<and> findKing noKingBoard White = ret None \<and> isInCheck noKingBoard White = ret False"
proof -
  have cells: "\<forall>x\<in>{0..7}. \<forall>y\<in>{0..7}. \<not> kingAt noKingBoard White x y"
    using noKing_list by (auto simp: list_all_iff set_scan_y_then_x)
  from isInCheck_no_king[OF noKing_len cells] noKing_len noKing_list show ?thesis by blast
qed

section \<open>Legal moves: the scan as a filter\<close>

lemma bind_res_assoc: "bind_res (bind_res m f) g = bind_res m (\<lambda>x. bind_res (f x) g)"
  by (simp add: bind_res_def split: option.splits sum.splits)

lemma row_set_ret: "0 \<le> x \<Longrightarrow> \<exists>r. row_set row x v = ret r"
  by (simp add: row_set_def)

lemma cell_set_ret:
  assumes "0 \<le> y" "y < int (length b)" "0 \<le> x"
  shows "\<exists>b'. cell_set b y x v = ret b' \<and> length b' = length b"
proof -
  from row_set_ret[OF assms(3)] obtain r where "row_set (b ! nat y) x v = ret r" by blast
  with assms show ?thesis by (simp add: cell_set_def)
qed

lemma cell_at_Some_range:
  assumes "cell_at b y x = ret (Some p)"
  shows "0 \<le> y \<and> y < int (length b) \<and> 0 \<le> x"
proof -
  from cell_at_retD[OF assms] have "0 \<le> y" "y < int (length b)" "row_at (b ! nat y) x = Some p"
    by simp_all
  then show ?thesis by (auto simp: row_at_def split: if_splits)
qed

lemma wouldBeInCheck_hyp:
  assumes "cell_at b (snd from) (fst from) = ret (Some p)"
  shows "wouldBeInCheck b from to c = bind_res (hypotheticalBoard b from to p) (\<lambda>h. isInCheck h c)"
  by (simp add: wouldBeInCheck_def hypotheticalBoard_def Let_def assms bind_res_assoc)

lemma hypotheticalBoard_ret:
  assumes "cell_at b (snd from) (fst from) = ret (Some p)"
    and "0 \<le> snd to" "snd to < int (length b)" "0 \<le> fst to"
  shows "\<exists>h. hypotheticalBoard b from to p = ret h \<and> length h = length b"
proof -
  from cell_set_ret[OF assms(2,3,4)] obtain b1 where
    b1: "cell_set b (snd to) (fst to) (Some p) = ret b1" "length b1 = length b" by blast
  from cell_at_Some_range[OF assms(1)] b1(2)
  have "0 \<le> snd from" "snd from < int (length b1)" "0 \<le> fst from" by simp_all
  from cell_set_ret[OF this] obtain h where
    "cell_set b1 (snd from) (fst from) None = ret h" "length h = length b1" by blast
  with b1 show ?thesis by (simp add: hypotheticalBoard_def)
qed

lemma wouldBeInCheck_ret:
  assumes "8 \<le> length b" "cell_at b (snd from) (fst from) = ret (Some p)"
    and "0 \<le> snd to" "snd to < int (length b)" "0 \<le> fst to"
  shows "\<exists>w. wouldBeInCheck b from to c = ret w"
proof -
  from hypotheticalBoard_ret[OF assms(2-5)] obtain h where
    h: "hypotheticalBoard b from to p = ret h" "length h = length b" by blast
  with assms(1) isInCheck_ret[of h c] obtain w where "isInCheck h c = ret w" by auto
  with h show ?thesis by (simp add: wouldBeInCheck_hyp[OF assms(2)])
qed

lemma getValidMoves_loop_filter:
  "getValidMoves_loop b pos piece sqs acc = ret ms
   \<Longrightarrow> ms = acc @ filter (legalTarget b pos piece) sqs"
proof (induction sqs arbitrary: acc)
  case Nil
  then show ?case by simp
next
  case (Cons sq sqs)
  obtain x y where sq: "sq = (x, y)" by (cases sq)
  from Cons.prems obtain v where v: "isValidMove b pos (x, y) piece = ret v"
    and rest: "(if v then
         bind_res (wouldBeInCheck b pos (x, y) (color piece)) (\<lambda>w.
           if \<not> w then getValidMoves_loop b pos piece sqs (acc @ [(x, y)])
           else getValidMoves_loop b pos piece sqs acc)
       else getValidMoves_loop b pos piece sqs acc) = ret ms"
    by (auto simp: sq bind_res_eq_ret)
  show ?case
  proof (cases v)
    case False
    with rest have "getValidMoves_loop b pos piece sqs acc = ret ms" by simp
    from Cons.IH[OF this] v False show ?thesis by (simp add: sq legalTarget_def)
  next
    case True
    with rest obtain w where w: "wouldBeInCheck b pos (x, y) (color piece) = ret w"
      and rest': "(if \<not> w then getValidMoves_loop b pos piece sqs (acc @ [(x, y)])
           else getValidMoves_loop b pos piece sqs acc) = ret ms"
      by (auto simp: bind_res_eq_ret)
    show ?thesis
    proof (cases w)
      case True
      with rest' have "getValidMoves_loop b pos piece sqs acc = ret ms" by simp
      from Cons.IH[OF this] w True show ?thesis by (simp add: sq legalTarget_def)
    next
      case False
      with rest' have "getValidMoves_loop b pos piece sqs (acc @ [(x, y)]) = ret ms" by simp
      from Cons.IH[OF this] v w \<open>v\<close> False show ?thesis by (simp add: sq legalTarget_def)
    qed
  qed
qed

lemma getValidMoves_loop_ret:
  assumes "\<forall>sq\<in>set sqs. \<exists>v. isValidMove b pos sq piece = ret v"
    and "\<forall>sq\<in>set sqs. \<exists>w. wouldBeInCheck b pos sq (color piece) = ret w"
  shows "\<exists>ms. getValidMoves_loop b pos piece sqs acc = ret ms"
  using assms
proof (induction sqs arbitrary: acc)
  case Nil
  then show ?case by simp
next
  case (Cons sq sqs)
  obtain x y where sq: "sq = (x, y)" by (cases sq)
  from Cons.prems obtain v w where vw: "isValidMove b pos (x, y) piece = ret v"
    "wouldBeInCheck b pos (x, y) (color piece) = ret w" by (auto simp: sq)
  have "\<exists>ms. getValidMoves_loop b pos piece sqs acc' = ret ms" for acc'
    using Cons by simp
  then show ?case by (simp add: sq vw)
qed

lemma getValidMoves_filter:
  assumes "cell_at b (snd pos) (fst pos) = ret (Some p)" "getValidMoves b pos = ret ms"
  shows "ms = filter (legalTarget b pos p) scan_x_then_y"
  using assms getValidMoves_loop_filter[of b pos p scan_x_then_y "[]" ms]
  by (simp add: getValidMoves_def)

lemma getValidMoves_ret:
  assumes "8 \<le> length b" "cell_at b (snd pos) (fst pos) = ret (Some p)"
  shows "\<exists>ms. getValidMoves b pos = ret ms"
proof -
  from cell_at_Some_range[OF assms(2)] have r: "0 \<le> snd pos" "snd pos < int (length b)" by simp_all
  have "\<exists>v. isValidMove b pos sq p = ret v" if "sq \<in> set scan_x_then_y" for sq
  proof -
    from that assms(1) have "0 \<le> snd sq" "snd sq < int (length b)"
      by (auto simp: set_scan_x_then_y)
    from isValidMove_ret[OF r this, of "fst pos" "fst sq" p] show ?thesis by simp
  qed
  moreover have "\<exists>w. wouldBeInCheck b pos sq (color p) = ret w" if "sq \<in> set scan_x_then_y" for sq
  proof -
    from that assms(1) have "0 \<le> snd sq" "snd sq < int (length b)" "0 \<le> fst sq"
      by (auto simp: set_scan_x_then_y)
    from wouldBeInCheck_ret[OF assms this] show ?thesis .
  qed
  ultimately have "\<exists>ms. getValidMoves_loop b pos p scan_x_then_y [] = ret ms"
    by (intro getValidMoves_loop_ret) blast+
  with assms(2) show ?thesis by (simp add: getValidMoves_def)
qed

lemma getValidMoves_empty_cell:
  "cell_at b (snd pos) (fst pos) = ret None \<Longrightarrow> getValidMoves b pos = ret []"
  by (simp add: getValidMoves_def)

section \<open>C1: legal moves never leave the mover in check\<close>

text \<open>
  Claim C1. Let the square \<open>from\<close> hold the piece \<open>p\<close>. Every destination that
  \<open>getValidMoves\<close> returns survives the self-check filter: the board with \<open>p\<close> placed on
  the destination and \<open>from\<close> cleared exists and \<open>isInCheck\<close> of the colour of \<open>p\<close> is
  \<^verbatim>\<open>false\<close> on it. On a board with its eight rows \<open>getValidMoves\<close> does return. In
  particular, when every shape-legal move of \<open>p\<close> leaves its own king in check, as for a
  pinned piece, the list of legal moves is empty.
\<close>

theorem getValidMoves_no_self_check:
  assumes "cell_at b (snd from) (fst from) = ret (Some p)"
  shows "(\<forall>ms. getValidMoves b from = ret ms \<longrightarrow>
            (\<forall>to\<in>set ms. \<exists>h. hypotheticalBoard b from to p = ret h \<and> isInCheck h (color p) = ret False))
       \<and> (8 \<le> length b \<longrightarrow> (\<exists>ms. getValidMoves b from = ret ms))
       \<and> (8 \<le> length b
            \<and> (\<forall>to\<in>set scan_x_then_y. isValidMove b from to p = ret True \<longrightarrow>
                  (\<exists>h. hypotheticalBoard b from to p = ret h \<and> isInCheck h (color p) = ret True))
          \<longrightarrow> getValidMoves b from = ret [])"
proof (intro conjI allI impI ballI)
  fix ms to
  assume "getValidMoves b from = ret ms" and "to \<in> set ms"
  with getValidMoves_filter[OF assms] have "legalTarget b from p to" by auto
  then have "bind_res (hypotheticalBoard b from to p) (\<lambda>h. isInCheck h (color p)) = ret False"
    by (simp add: legalTarget_def wouldBeInCheck_hyp[OF assms])
  then show "\<exists>h. hypotheticalBoard b from to p = ret h \<and> isInCheck h (color p) = ret False"
    by (simp add: bind_res_eq_ret)
next
  assume "8 \<le> length b"
  then show "\<exists>ms. getValidMoves b from = ret ms" using assms by (rule getValidMoves_ret)
next
  assume a: "8 \<le> length b
     \<and> (\<forall>to\<in>set scan_x_then_y. isValidMove b from to p = ret True \<longrightarrow>
           (\<exists>h. hypotheticalBoard b from to p = ret h \<and> isInCheck h (color p) = ret True))"
  with getValidMoves_ret[OF _ assms] obtain ms where ms: "getValidMoves b from = ret ms" by blast
  have "\<not> legalTarget b from p to" if "to \<in> set scan_x_then_y" for to
  proof
    assume l: "legalTarget b from p to"
    with a that obtain h where "hypotheticalBoard b from to p = ret h" "isInCheck h (color p) = ret True"
      by (auto simp: legalTarget_def)
    then have "wouldBeInCheck b from to (color p) = ret True"
      by (simp add: wouldBeInCheck_hyp[OF assms])
    with l show False by (simp add: legalTarget_def)
  qed
  then have "filter (legalTarget b from p) scan_x_then_y = []" by (simp add: filter_empty_conv)
  with getValidMoves_filter[OF assms ms] ms show "getValidMoves b from = ret []" by simp
qed

lemma pin_king_cell: "cell_at pinBoard (snd (4, 7)) (fst (4, 7)) = ret (Some (mk King White 4 7))"
  by code_simp

lemma pin_knight_cell: "cell_at pinBoard (snd (4, 6)) (fst (4, 6)) = ret (Some (mk Knight White 4 6))"
  by code_simp

lemma pin_king_moves: "getValidMoves pinBoard (4, 7) = ret [(3, 6), (3, 7), (5, 6), (5, 7)]"
  by code_simp

lemma pin_len: "8 \<le> length pinBoard"
  by (simp add: pinBoard_def)

lemma pin_knight_exposes:
  "list_all (\<lambda>to.
      if isValidMove pinBoard (4, 6) to (mk Knight White 4 6) = ret True
      then bind_res (hypotheticalBoard pinBoard (4, 6) to (mk Knight White 4 6))
             (\<lambda>h. isInCheck h White) = ret True
      else True)
    scan_x_then_y"
  by code_simp

lemma pin_knight_shape: "isValidMove pinBoard (4, 6) (2, 5) (mk Knight White 4 6) = ret True"
  by code_simp

theorem getValidMoves_no_self_check_witness:
  "cell_at pinBoard 7 4 = ret (Some (mk King White 4 7))
   \<and> getValidMoves pinBoard (4, 7) = ret [(3, 6), (3, 7), (5, 6), (5, 7)]
   \<and> bind_res (hypotheticalBoard pinBoard (4, 7) (3, 6) (mk King White 4 7)) (\<lambda>h. isInCheck h White) = ret False
   \<and> cell_at pinBoard 6 4 = ret (Some (mk Knight White 4 6))
   \<and> 8 \<le> length pinBoard
   \<and> isValidMove pinBoard (4, 6) (2, 5) (mk Knight White 4 6) = ret True
   \<and> getValidMoves pinBoard (4, 6) = ret []"
proof -
  note k = getValidMoves_no_self_check[OF pin_king_cell]
  note n = getValidMoves_no_self_check[OF pin_knight_cell]
  from k pin_king_moves
  have "\<exists>h. hypotheticalBoard pinBoard (4, 7) (3, 6) (mk King White 4 7) = ret h
          \<and> isInCheck h (color (mk King White 4 7)) = ret False"
    by (auto simp del: ret_inject)
  then have 1: "bind_res (hypotheticalBoard pinBoard (4, 7) (3, 6) (mk King White 4 7))
      (\<lambda>h. isInCheck h White) = ret False"
    by (auto simp: mk_def)
  have "\<forall>to\<in>set scan_x_then_y. isValidMove pinBoard (4, 6) to (mk Knight White 4 6) = ret True \<longrightarrow>
      (\<exists>h. hypotheticalBoard pinBoard (4, 6) to (mk Knight White 4 6) = ret h
          \<and> isInCheck h (color (mk Knight White 4 6)) = ret True)"
    using pin_knight_exposes by (auto simp: list_all_iff bind_res_eq_ret mk_def split: if_splits)
  with n pin_len have 2: "getValidMoves pinBoard (4, 6) = ret []" by blast
  from 1 2 pin_king_cell pin_knight_cell pin_king_moves pin_len pin_knight_shape
  show ?thesis by simp
qed

section \<open>C5: the order of the legal moves\<close>

lemma sorted_scan_x_then_y: "sorted_wrt file_major scan_x_then_y"
  by code_simp

lemma knight_moves:
  "getValidMoves knightBoard (4, 4) = ret [(2, 3), (2, 5), (3, 2), (3, 6), (5, 2), (5, 6), (6, 3), (6, 5)]"
  by code_simp

text \<open>
  Claim C5, as the code has it. The list \<open>getValidMoves\<close> returns is in the order of its
  scan, \<^verbatim>\<open>for x { for y { ... } }\<close>: strictly ascending by file index first and by rank
  index among equal files, and it holds squares of the 8\<times>8 board only.
\<close>

theorem getValidMoves_file_major:
  assumes "getValidMoves b pos = ret ms"
  shows "sorted_wrt file_major ms \<and> set ms \<subseteq> set scan_x_then_y"
proof -
  from cell_at_cases[of b "snd pos" "fst pos"] assms obtain c where
    c: "cell_at b (snd pos) (fst pos) = ret c"
    by (auto simp: getValidMoves_def)
  show ?thesis
  proof (cases c)
    case None
    with c assms show ?thesis by (simp add: getValidMoves_def)
  next
    case (Some p)
    with c assms have "ms = filter (legalTarget b pos p) scan_x_then_y"
      by (intro getValidMoves_filter) simp_all
    then show ?thesis using sorted_scan_x_then_y by (auto simp: sorted_wrt_filter)
  qed
qed

theorem getValidMoves_file_major_witness:
  "getValidMoves knightBoard (4, 4) = ret [(2, 3), (2, 5), (3, 2), (3, 6), (5, 2), (5, 6), (6, 3), (6, 5)]
   \<and> sorted_wrt file_major [(2, 3), (2, 5), (3, 2), (3, 6), (5, 2), (5, 6), (6, 3), (6, 5)]"
  using getValidMoves_file_major[OF knight_moves] knight_moves by simp

text \<open>
  The order is not rank first: for the knight on e4 the destination \<open>(2, 5)\<close> comes
  before \<open>(3, 2)\<close>, whose rank index is smaller.
\<close>

theorem getValidMoves_not_rank_major:
  "getValidMoves knightBoard (4, 4) = ret [(2, 3), (2, 5), (3, 2), (3, 6), (5, 2), (5, 6), (6, 3), (6, 5)]
   \<and> \<not> sorted_wrt rank_major [(2, 3), (2, 5), (3, 2), (3, 6), (5, 2), (5, 6), (6, 3), (6, 5)]"
  using knight_moves by (simp add: rank_major_def)

section \<open>Checkmate and the status\<close>

lemma isCheckmate_loop_ret:
  assumes "8 \<le> length b"
    and "\<forall>(x, y) \<in> set sqs. 0 \<le> y \<and> y < int (length b)"
  shows "isCheckmate_loop b c sqs =
     ret (\<forall>(x, y) \<in> set sqs. \<forall>p. cell_at b y x = ret (Some p) \<and> color p = c
            \<longrightarrow> getValidMoves b (x, y) = ret [])"
  using assms(2)
proof (induction sqs)
  case Nil
  then show ?case by simp
next
  case (Cons sq sqs)
  obtain x y where sq: "sq = (x, y)" by (cases sq)
  from Cons.prems sq have y: "0 \<le> y" "y < int (length b)" by auto
  then have c: "cell_at b y x = ret (row_at (b ! nat y) x)"
    by (simp add: cell_at_rows)
  from Cons have IH: "isCheckmate_loop b c sqs =
     ret (\<forall>(x, y) \<in> set sqs. \<forall>p. cell_at b y x = ret (Some p) \<and> color p = c
            \<longrightarrow> getValidMoves b (x, y) = ret [])" by simp
  show ?case
  proof (cases "row_at (b ! nat y) x")
    case None
    then show ?thesis by (simp add: sq c IH)
  next
    case (Some p)
    show ?thesis
    proof (cases "color p = c")
      case False
      with Some show ?thesis by (simp add: sq c IH)
    next
      case True
      from getValidMoves_ret[OF assms(1), of "(x, y)" p] c Some obtain ms where
        ms: "getValidMoves b (x, y) = ret ms" by auto
      show ?thesis
      proof (cases "ms = []")
        case True
        with ms Some \<open>color p = c\<close> show ?thesis by (simp add: sq c IH)
      next
        case False
        with ms Some \<open>color p = c\<close> show ?thesis by (simp add: sq c)
      qed
    qed
  qed
qed

lemma isCheckmate_ret:
  assumes "8 \<le> length b"
  shows "\<exists>inCheck. isInCheck b c = ret inCheck \<and> isCheckmate b c = ret (inCheck \<and> noLegalMoves b c)"
proof -
  from isInCheck_ret[OF assms] obtain k where k: "isInCheck b c = ret k" by blast
  have "(\<forall>(x, y) \<in> set scan_y_then_x. \<forall>p. cell_at b y x = ret (Some p) \<and> color p = c
            \<longrightarrow> getValidMoves b (x, y) = ret []) = noLegalMoves b c"
    unfolding noLegalMoves_def set_scan_y_then_x by auto
  with isCheckmate_loop_ret[OF assms scan_rows(1)[OF assms], of c]
  have "isCheckmate_loop b c scan_y_then_x = ret (noLegalMoves b c)" by simp
  with k show ?thesis by (simp add: isCheckmate_def)
qed

section \<open>C2: checkmate, check, playing\<close>

text \<open>
  Claim C2. On a board with its eight rows, \<open>isCheckmate\<close> returns \<^verbatim>\<open>true\<close> exactly when
  \<open>isInCheck\<close> returns \<^verbatim>\<open>true\<close> and every piece of the colour on the 64 squares has an
  empty list of legal moves. The status effect sets \<^verbatim>\<open>checkmate\<close> in that case,
  \<^verbatim>\<open>check\<close> when in check with a legal move left, and \<^verbatim>\<open>playing\<close> whenever the colour is
  not in check, with or without legal moves; it never sets \<^verbatim>\<open>stalemate\<close>, and it changes
  no other field of the state.
\<close>

theorem isCheckmate_iff:
  assumes "8 \<le> length (board s)"
  shows "\<exists>inCheck s'.
      isInCheck (board s) (currentPlayer s) = ret inCheck
    \<and> isCheckmate (board s) (currentPlayer s) = ret (inCheck \<and> noLegalMoves (board s) (currentPlayer s))
    \<and> statusEffect s = ret s'
    \<and> s' = s\<lparr>gameStatus := gameStatus s'\<rparr>
    \<and> gameStatus s' =
         (if inCheck \<and> noLegalMoves (board s) (currentPlayer s) then Checkmate
          else if inCheck then Check else Playing)
    \<and> (\<not> inCheck \<longrightarrow> gameStatus s' = Playing)
    \<and> gameStatus s' \<noteq> Stalemate"
proof -
  from isCheckmate_ret[OF assms, of "currentPlayer s"] obtain k where
    k: "isInCheck (board s) (currentPlayer s) = ret k"
       "isCheckmate (board s) (currentPlayer s) = ret (k \<and> noLegalMoves (board s) (currentPlayer s))"
    by blast
  let ?st = "if k \<and> noLegalMoves (board s) (currentPlayer s) then Checkmate
          else if k then Check else Playing"
  have "statusEffect s = ret (s\<lparr>gameStatus := ?st\<rparr>)"
    by (simp add: statusEffect_def k Let_def)
  with k show ?thesis
    by (intro exI[of _ k] exI[of _ "s\<lparr>gameStatus := ?st\<rparr>"]) simp
qed

lemma noLegalMoves_scan_iff: "noLegalMoves_scan b c = noLegalMoves b c"
  unfolding noLegalMoves_scan_def noLegalMoves_def list_all_iff set_scan_y_then_x
  by (auto simp: ret_def split: option.splits sum.splits)

lemma stale_not_in_check: "isInCheck staleBoard Black = ret False"
  by code_simp

lemma stale_no_moves: "noLegalMoves_scan staleBoard Black"
  by code_simp

lemma mate_in_check: "isInCheck mateBoard Black = ret True"
  by code_simp

lemma mate_no_moves: "noLegalMoves_scan mateBoard Black"
  by code_simp

lemma stale_len: "8 \<le> length (board staleState)"
  by (simp add: staleState_def staleBoard_def)

lemma mate_len: "8 \<le> length (board mateState)"
  by (simp add: mateState_def mateBoard_def)

theorem isCheckmate_iff_witness:
  "8 \<le> length (board staleState)
   \<and> isInCheck staleBoard Black = ret False \<and> noLegalMoves_scan staleBoard Black
   \<and> isCheckmate staleBoard Black = ret False
   \<and> statusEffect staleState = ret (staleState\<lparr>gameStatus := Playing\<rparr>)
   \<and> 8 \<le> length (board mateState)
   \<and> isInCheck mateBoard Black = ret True \<and> noLegalMoves_scan mateBoard Black
   \<and> isCheckmate mateBoard Black = ret True
   \<and> statusEffect mateState = ret (mateState\<lparr>gameStatus := Checkmate\<rparr>)"
proof -
  from isCheckmate_iff[OF stale_len] stale_not_in_check
  have 1: "isCheckmate staleBoard Black = ret False
     \<and> statusEffect staleState = ret (staleState\<lparr>gameStatus := Playing\<rparr>)"
    by (auto simp: staleState_def)
  from isCheckmate_iff[OF mate_len] mate_in_check mate_no_moves
  have 2: "isCheckmate mateBoard Black = ret True
     \<and> statusEffect mateState = ret (mateState\<lparr>gameStatus := Checkmate\<rparr>)"
    by (auto simp: mateState_def noLegalMoves_scan_iff)
  from 1 2 stale_len mate_len stale_not_in_check stale_no_moves mate_in_check mate_no_moves
  show ?thesis by blast
qed

section \<open>C3: after checkmate\<close>

lemma handleSquareClick_checkmate:
  "gameStatus s = Checkmate \<Longrightarrow> handleSquareClick s x y = ret s"
  by (simp add: handleSquareClick_def)

lemma activateSquare_checkmate:
  "gameStatus s = Checkmate \<Longrightarrow> activateSquare s x y = ret s"
  by (simp add: activateSquare_def handleSquareClick_checkmate)

lemma activateSquares_checkmate:
  "gameStatus s = Checkmate \<Longrightarrow> activateSquares s clicks = ret s"
  by (induction clicks) (auto simp: activateSquare_checkmate)

text \<open>
  Claim C3. In a state whose status is \<^verbatim>\<open>checkmate\<close>, a square activation at any
  coordinates, on the board or not, returns the state as it is, with every field
  unchanged and nothing thrown; so does any sequence of activations. \<open>resetGame\<close>
  gives the initial state, whose status is \<^verbatim>\<open>playing\<close>.
\<close>

theorem checkmate_clicks_are_noops:
  assumes "gameStatus s = Checkmate"
  shows "handleSquareClick s x y = ret s
       \<and> activateSquare s x y = ret s
       \<and> activateSquares s clicks = ret s
       \<and> resetGame s = initialState
       \<and> gameStatus (resetGame s) = Playing"
  using assms
  by (simp add: handleSquareClick_checkmate activateSquare_checkmate activateSquares_checkmate
      resetGame_def initialState_def)

lemma mate_status: "statusEffect mateState = ret (mateState\<lparr>gameStatus := Checkmate\<rparr>)"
  by code_simp

theorem checkmate_clicks_are_noops_witness:
  "statusEffect mateState = ret (mateState\<lparr>gameStatus := Checkmate\<rparr>)
   \<and> gameStatus (mateState\<lparr>gameStatus := Checkmate\<rparr>) = Checkmate
   \<and> handleSquareClick (mateState\<lparr>gameStatus := Checkmate\<rparr>) 0 0 = ret (mateState\<lparr>gameStatus := Checkmate\<rparr>)
   \<and> activateSquare (mateState\<lparr>gameStatus := Checkmate\<rparr>) 9 (- 1) = ret (mateState\<lparr>gameStatus := Checkmate\<rparr>)
   \<and> activateSquares (mateState\<lparr>gameStatus := Checkmate\<rparr>) [(0, 0), (1, 0), (1, 1), (9, - 1)]
       = ret (mateState\<lparr>gameStatus := Checkmate\<rparr>)
   \<and> resetGame (mateState\<lparr>gameStatus := Checkmate\<rparr>) = initialState"
proof -
  have c: "gameStatus (mateState\<lparr>gameStatus := Checkmate\<rparr>) = Checkmate" by simp
  from checkmate_clicks_are_noops[OF c, of 0 0 "[(0, 0), (1, 0), (1, 1), (9, - 1)]"]
    checkmate_clicks_are_noops[OF c, of 9 "- 1" "[]"] mate_status c
  show ?thesis by blast
qed

section \<open>C8: a click on an empty or opponent square with nothing selected\<close>

text \<open>
  Claim C8. With no square selected, activating a square whose cell is empty or holds a
  piece of the player who is not to move returns the state as it is: board, move log,
  captured pieces and all other fields.
\<close>

theorem idle_click_is_noop:
  assumes "selectedPiece s = None"
    and "cell_at (board s) y x = ret c"
    and "c = None \<or> (\<exists>p. c = Some p \<and> color p \<noteq> currentPlayer s)"
  shows "handleSquareClick s x y = ret s \<and> activateSquare s x y = ret s"
proof -
  from assms have "handleSquareClick s x y = ret s"
    by (auto simp: handleSquareClick_def)
  then show ?thesis by (simp add: activateSquare_def)
qed

lemma initial_empty: "cell_at (board initialState) 4 4 = ret None"
  by code_simp

lemma initial_opponent:
  "cell_at (board initialState) 0 0
     = ret (Some \<lparr>ptype = Rook, color = Black, position = (0, 0), hasMoved = None, ident = ''br1''\<rparr>)"
  by code_simp

theorem idle_click_is_noop_witness:
  "selectedPiece initialState = None
   \<and> cell_at (board initialState) 4 4 = ret None
   \<and> handleSquareClick initialState 4 4 = ret initialState
   \<and> activateSquare initialState 4 4 = ret initialState
   \<and> cell_at (board initialState) 0 0
       = ret (Some \<lparr>ptype = Rook, color = Black, position = (0, 0), hasMoved = None, ident = ''br1''\<rparr>)
   \<and> currentPlayer initialState = White
   \<and> handleSquareClick initialState 0 0 = ret initialState
   \<and> activateSquare initialState 0 0 = ret initialState"
proof -
  have s: "selectedPiece initialState = None" "currentPlayer initialState = White"
    by (simp_all add: initialState_def)
  from idle_click_is_noop[OF s(1) initial_empty] idle_click_is_noop[OF s(1) initial_opponent]
    s initial_empty initial_opponent
  show ?thesis by simp
qed

section \<open>C9: coordinates off the board\<close>

text \<open>
  The click handler does not reject coordinates off the board: on the initial state a
  click at file 8, rank 0 returns normally, with the state unchanged.
\<close>

theorem out_of_range_click_not_rejected:
  "\<not> onBoard (8, 0) \<and> handleSquareClick initialState 8 0 = ret initialState"
  by code_simp

text \<open>
  Claim C9, as the code has it. \<open>handleSquareClick\<close> does not validate its coordinates;
  they index the board as they are. When the status is not \<^verbatim>\<open>checkmate\<close>, a rank index
  that is not a row of the board makes the read \<^verbatim>\<open>board[y][x]\<close> throw a \<open>TypeError\<close>. A
  file index outside an existing row reads \<^verbatim>\<open>undefined\<close> and is handled as an empty
  square: with nothing selected the state is returned unchanged and nothing is thrown.
  When the status is \<^verbatim>\<open>checkmate\<close> the state is returned unchanged for all coordinates.
\<close>

theorem handleSquareClick_out_of_range:
  "(gameStatus s \<noteq> Checkmate \<and> \<not> (0 \<le> y \<and> y < int (length (board s)))
      \<longrightarrow> handleSquareClick s x y = throw TypeError)
   \<and> (0 \<le> y \<and> y < int (length (board s)) \<and> \<not> (0 \<le> x \<and> x < int (length (board s ! nat y)))
        \<and> selectedPiece s = None
      \<longrightarrow> handleSquareClick s x y = ret s)
   \<and> (gameStatus s = Checkmate \<longrightarrow> handleSquareClick s x y = ret s)"
  by (auto simp: handleSquareClick_def cell_at_def row_at_def)

theorem handleSquareClick_out_of_range_witness:
  "gameStatus initialState \<noteq> Checkmate \<and> \<not> (0 \<le> (8::int) \<and> 8 < int (length (board initialState)))
   \<and> handleSquareClick initialState 0 8 = throw TypeError
   \<and> handleSquareClick initialState 0 (- 1) = throw TypeError
   \<and> (0 \<le> (0::int) \<and> 0 < int (length (board initialState)))
   \<and> \<not> (0 \<le> (8::int) \<and> 8 < int (length (board initialState ! nat 0)))
   \<and> selectedPiece initialState = None
   \<and> handleSquareClick initialState 8 0 = ret initialState
   \<and> handleSquareClick initialState (- 1) 0 = ret initialState"
  using handleSquareClick_out_of_range[of initialState 8 0]
    handleSquareClick_out_of_range[of initialState 0 8]
    handleSquareClick_out_of_range[of initialState "- 1" 0]
    handleSquareClick_out_of_range[of initialState 0 "- 1"]
  by (simp add: initialState_def initialBoard_def)

section \<open>C4: the pawn's double step\<close>

text \<open>
  Claim C4. For a pawn on the starting rank of its colour (rank index 6 for white, 1 for
  black), \<open>isValidMove\<close> accepts the move two squares forward on the same file whenever
  the destination cell is empty. Nothing is assumed about the square in between: the
  code does not look at it.
\<close>

theorem pawn_double_step:
  assumes "ptype p = Pawn"
    and "fromY = (if color p = White then 6 else 1)"
    and "toY = fromY + 2 * (if color p = White then - 1 else 1)"
    and "cell_at b toY fromX = ret None"
  shows "isValidMove b (fromX, fromY) (fromX, toY) p = ret True"
  using assms(1,2,3) unfolding isValidMove_cell[OF assms(4)]
  by (simp split: if_splits)

lemma blocked_mid: "cell_at blockedBoard 5 4 = ret (Some (mk Knight Black 4 5))"
  by code_simp

lemma blocked_dest: "cell_at blockedBoard (6 + 2 * (- 1)) 4 = ret None"
  by code_simp

lemma blocked_pawn: "cell_at blockedBoard 6 4 =
    ret (Some \<lparr>ptype = Pawn, color = White, position = (4, 6), hasMoved = None, ident = ''wp5''\<rparr>)"
  by code_simp

theorem pawn_double_step_witness:
  "cell_at blockedBoard 6 4 =
      ret (Some \<lparr>ptype = Pawn, color = White, position = (4, 6), hasMoved = None, ident = ''wp5''\<rparr>)
   \<and> cell_at blockedBoard 5 4 = ret (Some (mk Knight Black 4 5))
   \<and> cell_at blockedBoard 4 4 = ret None
   \<and> isValidMove blockedBoard (4, 6) (4, 4)
        \<lparr>ptype = Pawn, color = White, position = (4, 6), hasMoved = None, ident = ''wp5''\<rparr> = ret True"
  using pawn_double_step[of "\<lparr>ptype = Pawn, color = White, position = (4, 6), hasMoved = None, ident = ''wp5''\<rparr>"
      6 4 blockedBoard 4] blocked_mid blocked_dest blocked_pawn
  by simp

section \<open>C6: move notation\<close>

lemma pieceSymbol_eval:
  "toUpperCase (charAt ''rook'' 0) = ''R''"
  "toUpperCase (charAt ''knight'' 0) = ''K''"
  "toUpperCase (charAt ''bishop'' 0) = ''B''"
  "toUpperCase (charAt ''queen'' 0) = ''Q''"
  "toUpperCase (charAt ''king'' 0) = ''K''"
  by code_simp+

lemma files_at_letter:
  assumes "0 \<le> f" "f \<le> 7"
  shows "files_at f = [''abcdefgh'' ! nat f]"
proof -
  from assms have "f = 0 \<or> f = 1 \<or> f = 2 \<or> f = 3 \<or> f = 4 \<or> f = 5 \<or> f = 6 \<or> f = 7" by arith
  then show ?thesis by (elim disjE) (simp_all add: files_at_def files_def)
qed

lemma rank_digit:
  assumes "0 \<le> r" "r \<le> 7"
  shows "number_toString (8 - r) = [''87654321'' ! nat r]"
proof -
  from assms have "r = 0 \<or> r = 1 \<or> r = 2 \<or> r = 3 \<or> r = 4 \<or> r = 5 \<or> r = 6 \<or> r = 7" by arith
  then show ?thesis by (elim disjE) (simp_all add: number_toString_def digits.simps)
qed

text \<open>
  Claim C6. For a destination on files 0 to 7, \<open>formatMove\<close> returns the piece prefix,
  then the capture marker, then the destination name. The prefix is empty for a pawn
  and otherwise the upper-cased first letter of the type name, so \<open>K\<close> for the knight as
  for the king; the marker is \<open>x\<close> exactly when a captured piece is passed; the name is
  the file letter followed by 8 minus the rank index, a single digit on ranks 0 to 7.
  The \<open>from\<close> argument does not change the result. The three moves of the
  specification format as \<open>Ra5\<close>, \<open>Rxa5\<close> and \<open>e4\<close>.
\<close>

theorem formatMove_spec:
  assumes "0 \<le> f" "f \<le> 7"
  shows "formatMove from (f, r) piece captured =
          (case ptype piece of Pawn \<Rightarrow> [] | Rook \<Rightarrow> ''R'' | Knight \<Rightarrow> ''K'' | Bishop \<Rightarrow> ''B''
             | Queen \<Rightarrow> ''Q'' | King \<Rightarrow> ''K'')
          @ (case captured of None \<Rightarrow> [] | Some c \<Rightarrow> ''x'')
          @ [''abcdefgh'' ! nat f] @ number_toString (8 - r)
       \<and> (0 \<le> r \<and> r \<le> 7 \<longrightarrow> number_toString (8 - r) = [''87654321'' ! nat r])
       \<and> formatMove from' (f, r) piece captured = formatMove from (f, r) piece captured
       \<and> formatMove (0, 7) (0, 3) (mk Rook White 0 7) None = ''Ra5''
       \<and> formatMove (0, 7) (0, 3) (mk Rook White 0 7) (Some (mk Pawn Black 0 3)) = ''Rxa5''
       \<and> formatMove (4, 6) (4, 4) (mk Pawn White 4 6) None = ''e4''"
proof (intro conjI impI)
  show "formatMove from (f, r) piece captured =
          (case ptype piece of Pawn \<Rightarrow> [] | Rook \<Rightarrow> ''R'' | Knight \<Rightarrow> ''K'' | Bishop \<Rightarrow> ''B''
             | Queen \<Rightarrow> ''Q'' | King \<Rightarrow> ''K'')
          @ (case captured of None \<Rightarrow> [] | Some c \<Rightarrow> ''x'')
          @ [''abcdefgh'' ! nat f] @ number_toString (8 - r)"
    by (cases "ptype piece"; cases captured)
       (simp_all add: formatMove_def Let_def pieceSymbol_eval files_at_letter[OF assms])
next
  assume "0 \<le> r \<and> r \<le> 7"
  then show "number_toString (8 - r) = [''87654321'' ! nat r]" by (simp add: rank_digit)
next
  show "formatMove from' (f, r) piece captured = formatMove from (f, r) piece captured"
    by (simp add: formatMove_def Let_def)
next
  show "formatMove (0, 7) (0, 3) (mk Rook White 0 7) None = ''Ra5''" by code_simp
next
  show "formatMove (0, 7) (0, 3) (mk Rook White 0 7) (Some (mk Pawn Black 0 3)) = ''Rxa5''" by code_simp
next
  show "formatMove (4, 6) (4, 4) (mk Pawn White 4 6) None = ''e4''" by code_simp
qed

lemma three: "number_toString (8 - 5) = ''3''"
  by code_simp

theorem formatMove_spec_witness:
  "(0::int) \<le> 2 \<and> (2::int) \<le> 7
   \<and> formatMove (1, 7) (2, 5) (mk Knight White 1 7) None = ''Kc3''
   \<and> formatMove (4, 0) (2, 5) (mk King Black 4 0) (Some (mk Pawn White 2 5)) = ''Kxc3''
   \<and> formatMove (0, 0) (2, 5) (mk Knight White 1 7) None = formatMove (1, 7) (2, 5) (mk Knight White 1 7) None"
  using formatMove_spec[of 2 "(1, 7)" 5 "mk Knight White 1 7" None "(0, 0)"]
    formatMove_spec[of 2 "(4, 0)" 5 "mk King Black 4 0" "Some (mk Pawn White 2 5)" "(0, 0)"] three
  by (simp add: mk_def)

end
